theory Spec2Isabelle
  imports Complex_Main "HOL-Library.AList" "HOL-Library.Sublist"
begin

section \<open>byexample: the interactive session engine and the run orchestration\<close>

text \<open>
  A shallow embedding of \<^verbatim>\<open>byexample/interpreter.py\<close>, \<^verbatim>\<open>byexample/concern.py\<close> and
  \<^verbatim>\<open>byexample/byexample.py\<close>. Python strings are \<open>string\<close>; exceptions are values of
  the type \<open>exn\<close>; a function that may raise returns \<open>exn + 'a\<close> (\<open>Inl\<close> the exception).
  Libraries that are not part of the repository (\<^verbatim>\<open>pexpect\<close>, \<^verbatim>\<open>re\<close>, \<^verbatim>\<open>termios\<close>,
  \<^verbatim>\<open>inspect\<close>, \<^verbatim>\<open>pkgutil\<close>) and the collaborators \<^verbatim>\<open>runner\<close>, \<^verbatim>\<open>finder\<close> are parameters of
  the model.
\<close>

subsection \<open>Exceptions\<close>

datatype exn =
    TimeoutException string
  | ValueError "string set"
  | KeyError string
  | AttributeError string
  | OtherError string

subsection \<open>Regular expressions, as far as \<^verbatim>\<open>re.sub\<close> needs them\<close>

text \<open>
  A pattern is represented by what \<^verbatim>\<open>re.sub\<close> does with it at one position of the
  subject: given the text before the position and the text from the position on, it
  answers \<open>Some n\<close> when the substitution consumes the next \<open>n\<close> characters there and
  \<open>None\<close> when the pattern does not match there. An empty match consumes nothing.
\<close>

type_synonym matcher = "string \<Rightarrow> string \<Rightarrow> nat option"

definition CR :: char where
  "CR = CHR 0x0D"

definition LF :: char where
  "LF = CHR 0x0A"

text \<open>The pattern of a literal, non-empty text, such as \<^verbatim>\<open>r'\r\n'\<close>.\<close>

definition literal :: "string \<Rightarrow> matcher" where
  "literal p = (\<lambda>pre suf. if p \<noteq> [] \<and> prefix p suf then Some (length p) else None)"

text \<open>
  \<^verbatim>\<open>re.sub(pattern, repl, string)\<close> for a replacement text without group references:
  one scan from left to right; where the pattern consumes a non-empty span the
  replacement is emitted and the scan goes on behind the span, elsewhere the character
  is copied. The second argument of the recursion is the text already scanned.
\<close>

function re_sub_from :: "matcher \<Rightarrow> string \<Rightarrow> string \<Rightarrow> string \<Rightarrow> string" where
  "re_sub_from m repl pre [] = []"
| "re_sub_from m repl pre (c # cs) =
     (case m pre (c # cs) of
        None \<Rightarrow> c # re_sub_from m repl (pre @ [c]) cs
      | Some n \<Rightarrow>
          if n = 0 then c # re_sub_from m repl (pre @ [c]) cs
          else repl @ re_sub_from m repl (pre @ take n (c # cs)) (drop n (c # cs)))"
  by pat_completeness auto
termination
  by (relation "measure (\<lambda>(m, repl, pre, s). length s)") auto

definition re_sub :: "matcher \<Rightarrow> string \<Rightarrow> string \<Rightarrow> string" where
  "re_sub m repl s = re_sub_from m repl [] s"

subsection \<open>\<^verbatim>\<open>PexepctMixin\<close>: the session\<close>

text \<open>
  The \<^verbatim>\<open>pexpect\<close> child is abstract (\<open>'c\<close>). \<open>expect\<close> is
  \<^verbatim>\<open>self.interpreter.expect([PS1_re, pexpect.TIMEOUT], timeout=t)\<close>: it returns the index
  of the alternative that fired, or raises (\<^verbatim>\<open>pexpect.EOF\<close> is not in the list), and
  changes the child; \<open>before\<close> reads \<^verbatim>\<open>self.interpreter.before\<close>.
\<close>

record 'c pexpect =
  expect :: "'c \<Rightarrow> matcher \<Rightarrow> rat \<Rightarrow> (exn + nat) \<times> 'c"
  before :: "'c \<Rightarrow> string"

record 'c session =
  interpreter :: 'c
  PS1_re :: matcher
  any_PS_re :: "matcher option"
  last_output :: "string list"

definition drop_output :: "'c session \<Rightarrow> 'c session" where
  "drop_output s = s\<lparr>last_output := []\<rparr>"

definition endswith :: "string \<Rightarrow> string \<Rightarrow> bool" where
  "endswith s t = suffix t s"

definition universal_new_lines :: "string \<Rightarrow> string" where
  "universal_new_lines out0 =
     (let out = re_sub (literal [CR, LF]) [LF] out0
      in if out \<noteq> [] \<and> \<not> endswith out [LF] then out @ [LF] else out)"

definition get_output :: "'c session \<Rightarrow> string \<times> 'c session" where
  "get_output s =
     (let out = concat (last_output s);
          s' = drop_output s;
          out = (case any_PS_re s of
                   Some m \<Rightarrow> re_sub m [] out
                 | None \<Rightarrow> out);
          out = universal_new_lines out
      in (out, s'))"

text \<open>
  \<^verbatim>\<open>PS1_found, Timeout = range(len(expect))\<close>: the two indices \<^verbatim>\<open>expect\<close> can return.
\<close>

definition PS1_found :: nat where
  "PS1_found = 0"

definition Timeout :: nat where
  "Timeout = 1"

definition settle_window :: rat where
  "settle_window = 5 / 100"

definition stall_message :: "string \<Rightarrow> string" where
  "stall_message seen =
     ''Prompt not found: the code is taking too long to finish or there is a syntax error.''
     @ [LF] @ ''Last 1000 bytes read:'' @ [LF] @ drop (length seen - 1000) seen"

text \<open>
  The loop \<^verbatim>\<open>while what != Timeout\<close> of \<^verbatim>\<open>_expect_prompt\<close>. It runs as long as the child
  keeps printing prompts, so it is a partial function: \<open>None\<close> is a loop that never
  ends. An exception of \<^verbatim>\<open>expect\<close> leaves the loop before the append.
\<close>

partial_function (option) settle_loop ::
  "'c pexpect \<Rightarrow> nat \<Rightarrow> 'c session \<Rightarrow> ((exn + unit) \<times> 'c session) option" where
  "settle_loop L what s =
     (if what \<noteq> Timeout then
        (case expect L (interpreter s) (PS1_re s) settle_window of
           (Inl e, c) \<Rightarrow> Some (Inl e, s\<lparr>interpreter := c\<rparr>)
         | (Inr what', c) \<Rightarrow>
             settle_loop L what'
               (s\<lparr>interpreter := c, last_output := last_output s @ [before L c]\<rparr>))
      else Some (Inr (), s))"

definition expect_prompt ::
  "'c pexpect \<Rightarrow> rat \<Rightarrow> 'c session \<Rightarrow> ((exn + unit) \<times> 'c session) option" where
  "expect_prompt L timeout s =
     (case expect L (interpreter s) (PS1_re s) timeout of
        (Inl e, c) \<Rightarrow> Some (Inl e, s\<lparr>interpreter := c\<rparr>)
      | (Inr what, c) \<Rightarrow>
          (let s1 = s\<lparr>interpreter := c, last_output := last_output s @ [before L c]\<rparr>
           in if what = PS1_found then settle_loop L what s1
              else if what = Timeout then
                Some (Inl (TimeoutException (stall_message (before L c))), s1)
              else Some (Inr (), s1)))"

text \<open>
  \<^verbatim>\<open>_exec_and_wait\<close> after the \<^verbatim>\<open>send\<close> (which is a parameter: it only changes the
  child): wait for the prompt, then take the output.
\<close>

definition exec_and_wait ::
  "'c pexpect \<Rightarrow> ('c \<Rightarrow> string \<Rightarrow> (exn + unit) \<times> 'c) \<Rightarrow> string \<Rightarrow> rat \<Rightarrow> 'c session
     \<Rightarrow> ((exn + string) \<times> 'c session) option" where
  "exec_and_wait L send source timeout s =
     (case send (interpreter s) source of
        (Inl e, c) \<Rightarrow> Some (Inl e, s\<lparr>interpreter := c\<rparr>)
      | (Inr u, c) \<Rightarrow>
          (case expect_prompt L timeout (s\<lparr>interpreter := c\<rparr>) of
             None \<Rightarrow> None
           | Some (Inl e, s1) \<Rightarrow> Some (Inl e, s1)
           | Some (Inr u, s1) \<Rightarrow> (case get_output s1 of (out, s2) \<Rightarrow> Some (Inr out, s2))))"

subsection \<open>A child process whose output has all arrived\<close>

text \<open>
  An instance of the \<^verbatim>\<open>pexpect\<close> parameter, used to evaluate the model: the child has
  printed \<open>unread\<close> and is silent from then on. \<^verbatim>\<open>expect\<close> searches the unread text for
  the first match of the prompt; on a match \<^verbatim>\<open>before\<close> is the text in front of it and
  the rest stays unread, on a timeout \<^verbatim>\<open>before\<close> is all the unread text, which stays
  unread.
\<close>

record child =
  unread :: string
  seen_before :: string

fun search :: "matcher \<Rightarrow> string \<Rightarrow> string \<Rightarrow> (string \<times> string) option" where
  "search m pre [] = None"
| "search m pre (c # cs) =
     (case m pre (c # cs) of
        Some n \<Rightarrow> Some (pre, drop n (c # cs))
      | None \<Rightarrow> search m (pre @ [c]) cs)"

definition silent_child :: "child pexpect" where
  "silent_child =
     \<lparr>expect = (\<lambda>c m t.
        (case search m [] (unread c) of
           Some (b, rest) \<Rightarrow> (Inr PS1_found, \<lparr>unread = rest, seen_before = b\<rparr>)
         | None \<Rightarrow> (Inr Timeout, \<lparr>unread = unread c, seen_before = unread c\<rparr>))),
      before = seen_before\<rparr>"

text \<open>
  \<open>prompts_found L p c n\<close>: the next \<open>n\<close> calls of \<^verbatim>\<open>expect\<close> with the settle window,
  starting from the child \<open>c\<close>, all find the prompt; the result is what \<^verbatim>\<open>before\<close> held
  after each call, and the child after the last one.
\<close>

fun prompts_found :: "'c pexpect \<Rightarrow> matcher \<Rightarrow> 'c \<Rightarrow> nat \<Rightarrow> (string list \<times> 'c) option" where
  "prompts_found L p c 0 = Some ([], c)"
| "prompts_found L p c (Suc n) =
     (case expect L c p settle_window of
        (Inl e, c1) \<Rightarrow> None
      | (Inr what, c1) \<Rightarrow>
          if what = PS1_found
          then (case prompts_found L p c1 n of
                  None \<Rightarrow> None
                | Some (bs, c2) \<Rightarrow> Some (before L c1 # bs, c2))
          else None)"

subsection \<open>\<^verbatim>\<open>PexepctMixin.interact\<close>: the manual handoff\<close>

text \<open>
  The terminal behind \<^verbatim>\<open>self.interpreter.child_fd\<close> is a field of the world:
  \<^verbatim>\<open>termios.tcgetattr\<close> reads \<open>tty_attr\<close> and \<^verbatim>\<open>termios.tcsetattr\<close> writes it. Everything
  else the handoff touches (the child, the user's terminal) is \<open>beyond\<close>. The
  \<^verbatim>\<open>pexpect\<close> calls and \<^verbatim>\<open>set_cooked_mode\<close> are parameters: they may change the whole
  world, \<open>tty_attr\<close> included, and may raise.
\<close>

record ('a, 'w) world =
  tty_attr :: 'a
  beyond :: 'w

type_synonym ('a, 'w, 'r) action = "('a, 'w) world \<Rightarrow> (exn + 'r) \<times> ('a, 'w) world"

record ('a, 'w, 'f) handoff =
  child_send :: "string \<Rightarrow> ('a, 'w, unit) action"
  child_interact :: "char \<Rightarrow> (string \<Rightarrow> ('a, 'w, string) action) \<Rightarrow> 'f \<Rightarrow> ('a, 'w, unit) action"
  set_cooked_mode :: "bool \<Rightarrow> ('a, 'w, unit) action"

text \<open>The nested function \<^verbatim>\<open>ensure_cooked_mode\<close>.\<close>

definition ensure_cooked_mode ::
  "('a, 'w, 'f) handoff \<Rightarrow> (string \<Rightarrow> ('a, 'w, string) action) option
     \<Rightarrow> string \<Rightarrow> ('a, 'w, string) action" where
  "ensure_cooked_mode H input_filter input_str w =
     (case set_cooked_mode H True w of
        (Inl e, w1) \<Rightarrow> (Inl e, w1)
      | (Inr u, w1) \<Rightarrow>
          (case input_filter of
             Some f \<Rightarrow> f input_str w1
           | None \<Rightarrow> (Inr input_str, w1)))"

text \<open>The body of the \<^verbatim>\<open>try\<close>.\<close>

definition interact_body ::
  "('a, 'w, 'f) handoff \<Rightarrow> string \<Rightarrow> char \<Rightarrow> (string \<Rightarrow> ('a, 'w, string) action) option \<Rightarrow> 'f
     \<Rightarrow> ('a, 'w, unit) action" where
  "interact_body H send escape_character input_filter output_filter w =
     (case (if send \<noteq> [] then child_send H send w else (Inr (), w)) of
        (Inl e, w1) \<Rightarrow> (Inl e, w1)
      | (Inr u, w1) \<Rightarrow>
          child_interact H escape_character (ensure_cooked_mode H input_filter) output_filter w1)"

text \<open>
  \<^verbatim>\<open>interact\<close>: \<^verbatim>\<open>attr = tcgetattr(fd)\<close>, the \<^verbatim>\<open>try\<close>, and in the \<^verbatim>\<open>finally\<close>
  \<^verbatim>\<open>tcsetattr(fd, TCSANOW, attr)\<close>; the outcome of the body, exception or not, is the
  outcome of the call.
\<close>

definition interact ::
  "('a, 'w, 'f) handoff \<Rightarrow> string \<Rightarrow> char \<Rightarrow> (string \<Rightarrow> ('a, 'w, string) action) option \<Rightarrow> 'f
     \<Rightarrow> ('a, 'w, unit) action" where
  "interact H send escape_character input_filter output_filter w =
     (let attr = tty_attr w
      in case interact_body H send escape_character input_filter output_filter w of
           (r, w1) \<Rightarrow> (r, w1\<lparr>tty_attr := attr\<rparr>))"

subsection \<open>Python dictionaries\<close>

text \<open>
  A dictionary is an association list with distinct keys, in the order in which the
  dictionary is iterated: \<^verbatim>\<open>d[k] = v\<close> replaces the value of \<open>k\<close> where it stands or
  adds the pair at the end, \<^verbatim>\<open>d[k]\<close> raises \<^verbatim>\<open>KeyError\<close> for a missing key and
  \<^verbatim>\<open>d.values()\<close> lists the values.
\<close>

type_synonym 'v pydict = "(string \<times> 'v) list"

definition dict_get :: "'v pydict \<Rightarrow> string \<Rightarrow> exn + 'v" where
  "dict_get d k = (case map_of d k of None \<Rightarrow> Inl (KeyError k) | Some v \<Rightarrow> Inr v)"

definition dict_set :: "'v pydict \<Rightarrow> string \<Rightarrow> 'v \<Rightarrow> 'v pydict" where
  "dict_set d k v = AList.update k v d"

definition dict_values :: "'v pydict \<Rightarrow> 'v list" where
  "dict_values d = map snd d"

subsection \<open>\<^verbatim>\<open>byexample.py\<close>: discovery of the plugins\<close>

text \<open>
  A class found in a plugin module: its name (which identifies the class object), the
  contract classes among \<^verbatim>\<open>Interpreter\<close>, \<^verbatim>\<open>ExampleParser\<close> and \<^verbatim>\<open>MatchFinder\<close> of which it is
  a subclass (\<^verbatim>\<open>issubclass\<close>, so a contract class is in its own list), its class
  attributes, and the exception its constructor raises when it does.
  An object met during discovery is a class, an instance of a class (the number tells
  the instances of one run apart: it is the count of instances made before it), or
  something else.
\<close>

record klass =
  cname :: string
  subclass_of :: "string list"
  attrs :: "string pydict"
  init_error :: "exn option"

datatype pyobj = ClassObj klass | Instance klass nat | OtherObj string

text \<open>
  What \<^verbatim>\<open>pkgutil.iter_modules\<close> yields: for each module its name and what loading it
  gives, an exception or the members of the module in the order of \<^verbatim>\<open>inspect.getmembers\<close>
  (sorted by name).
\<close>

record pymodule =
  mod_name :: string
  load_module :: "exn + (string \<times> pyobj) list"

definition is_a :: "string \<Rightarrow> string \<Rightarrow> pyobj \<Rightarrow> bool" where
  "is_a target_class key_attr obj =
     (case obj of
        ClassObj k \<Rightarrow>
          target_class \<in> set (subclass_of k) \<and> cname k \<noteq> target_class
          \<and> map_of (attrs k) key_attr \<noteq> None
      | Instance k n \<Rightarrow> False
      | OtherObj x \<Rightarrow> False)"

definition getmembers :: "(string \<times> pyobj) list \<Rightarrow> (pyobj \<Rightarrow> bool) \<Rightarrow> (string \<times> pyobj) list" where
  "getmembers members predicate = filter (\<lambda>(name, obj). predicate obj) members"

definition getattr :: "pyobj \<Rightarrow> string \<Rightarrow> exn + string" where
  "getattr obj key =
     (case obj of
        ClassObj k \<Rightarrow>
          (case map_of (attrs k) key of None \<Rightarrow> Inl (AttributeError key) | Some v \<Rightarrow> Inr v)
      | Instance k n \<Rightarrow>
          (case map_of (attrs k) key of None \<Rightarrow> Inl (AttributeError key) | Some v \<Rightarrow> Inr v)
      | OtherObj x \<Rightarrow> Inl (AttributeError key))"

text \<open>
  \<^verbatim>\<open>[klass(verbosity, encoding) for klass in klasses_found]\<close>; the second argument is the
  list of the classes instantiated so far in the run, oldest first.
\<close>

fun instantiate :: "pyobj list \<Rightarrow> klass list \<Rightarrow> exn + (pyobj list \<times> klass list)" where
  "instantiate [] made = Inr ([], made)"
| "instantiate (ClassObj k # ks) made =
     (case init_error k of
        Some e \<Rightarrow> Inl e
      | None \<Rightarrow>
          (case instantiate ks (made @ [k]) of
             Inl e \<Rightarrow> Inl e
           | Inr (objs, made') \<Rightarrow> Inr (Instance k (length made) # objs, made')))"
| "instantiate (obj # ks) made = Inl (OtherError ''not callable'')"

text \<open>\<^verbatim>\<open>for obj in objs: container[getattr(obj, key)] = obj\<close>\<close>

fun store_objs :: "string \<Rightarrow> pyobj list \<Rightarrow> pyobj pydict \<Rightarrow> exn + pyobj pydict" where
  "store_objs key [] container = Inr container"
| "store_objs key (obj # objs) container =
     (case getattr obj key of
        Inl e \<Rightarrow> Inl e
      | Inr v \<Rightarrow> store_objs key objs (dict_set container v obj))"

text \<open>
  The state of the discovery: the registry and the classes instantiated so far. The
  parameter \<open>set_order\<close> is the order in which Python iterates over the set
  \<^verbatim>\<open>set(klasses_found) - set(container.values())\<close>, given its elements in the order of
  \<^verbatim>\<open>getmembers\<close>; the language does not fix it.
\<close>

type_synonym registry = "pyobj pydict pydict"

fun load_kind ::
  "(pyobj list \<Rightarrow> pyobj list) \<Rightarrow> (string \<times> pyobj) list \<Rightarrow> string \<times> string \<times> string
     \<Rightarrow> registry \<times> klass list \<Rightarrow> exn + registry \<times> klass list" where
  "load_kind set_order members (klass, key, what) (registry, made) =
     (case dict_get registry what of
        Inl e \<Rightarrow> Inl e
      | Inr container \<Rightarrow>
          (let klasses_found = map snd (getmembers members (is_a klass key));
               klasses_found =
                 (if klasses_found \<noteq> []
                  then set_order (filter (\<lambda>k. k \<notin> set (dict_values container))
                                    (remdups klasses_found))
                  else klasses_found)
           in (case instantiate klasses_found made of
                 Inl e \<Rightarrow> Inl e
               | Inr (objs, made') \<Rightarrow>
                   (case store_objs key objs container of
                      Inl e \<Rightarrow> Inl e
                    | Inr container' \<Rightarrow> Inr (dict_set registry what container', made')))))"

fun for_each :: "('a \<Rightarrow> 's \<Rightarrow> exn + 's) \<Rightarrow> 'a list \<Rightarrow> 's \<Rightarrow> exn + 's" where
  "for_each body [] st = Inr st"
| "for_each body (x # xs) st =
     (case body x st of
        Inl e \<Rightarrow> Inl e
      | Inr st' \<Rightarrow> for_each body xs st')"

definition kinds :: "(string \<times> string \<times> string) list" where
  "kinds = [(''Interpreter'', ''language'', ''interpreters''),
            (''ExampleParser'', ''language'', ''parsers''),
            (''MatchFinder'', ''target'', ''finders'')]"

definition load_one ::
  "(pyobj list \<Rightarrow> pyobj list) \<Rightarrow> pymodule \<Rightarrow> registry \<times> klass list
     \<Rightarrow> exn + registry \<times> klass list" where
  "load_one set_order m st =
     (case load_module m of
        Inl e \<Rightarrow> Inr st
      | Inr members \<Rightarrow> for_each (load_kind set_order members) kinds st)"

definition load_modules ::
  "(pyobj list \<Rightarrow> pyobj list) \<Rightarrow> pymodule list \<Rightarrow> exn + registry \<times> klass list" where
  "load_modules set_order modules =
     for_each (load_one set_order) modules
       ([(''interpreters'', []), (''finders'', []), (''parsers'', [])], [])"

subsection \<open>\<^verbatim>\<open>byexample.py\<close>: the selected languages\<close>

fun languages_of :: "pyobj list \<Rightarrow> exn + string list" where
  "languages_of [] = Inr []"
| "languages_of (obj # objs) =
     (case getattr obj ''language'' of
        Inl e \<Rightarrow> Inl e
      | Inr l \<Rightarrow> (case languages_of objs of Inl e \<Rightarrow> Inl e | Inr ls \<Rightarrow> Inr (l # ls)))"

definition get_allowed_languages :: "registry \<Rightarrow> string list \<Rightarrow> exn + string set" where
  "get_allowed_languages registry selected =
     (case dict_get registry ''interpreters'' of
        Inl e \<Rightarrow> Inl e
      | Inr interpreters \<Rightarrow>
     (case languages_of (dict_values interpreters) of
        Inl e \<Rightarrow> Inl e
      | Inr ls1 \<Rightarrow>
     (case dict_get registry ''parsers'' of
        Inl e \<Rightarrow> Inl e
      | Inr parsers \<Rightarrow>
     (case languages_of (dict_values parsers) of
        Inl e \<Rightarrow> Inl e
      | Inr ls2 \<Rightarrow>
          (let available = set (ls1 @ ls2);
               selected = set selected;
               not_found = selected - available
           in if not_found \<noteq> {} then Inl (ValueError not_found) else Inr selected)))))"

subsection \<open>\<^verbatim>\<open>byexample.py\<close>: \<^verbatim>\<open>main\<close>\<close>

text \<open>
  The command line as \<^verbatim>\<open>parse_args\<close> returns it, as far as \<^verbatim>\<open>main\<close> reads it. The finder
  and the runner are collaborators outside these files: they are parameters that act on
  a world \<open>'w\<close> and may raise. \<^verbatim>\<open>options['FAIL_FAST']\<close> is the value \<^verbatim>\<open>args.fail_fast\<close> that
  \<^verbatim>\<open>main\<close> put there.
\<close>

record args =
  files :: "string list"
  skip :: "string list"
  languages :: "string list"
  dry :: bool
  fail_fast :: bool

record ('w, 'ex) collaborators =
  get_examples_from_file :: "string set \<Rightarrow> string \<Rightarrow> 'w \<Rightarrow> (exn + 'ex) \<times> 'w"
  runner_run :: "'ex \<Rightarrow> string \<Rightarrow> 'w \<Rightarrow> (exn + bool \<times> bool) \<times> 'w"

text \<open>
  What the loop over the files did, in order: \<open>Parse f\<close> when the body of the loop
  starts on the file \<open>f\<close> (the call of the finder), \<open>Run f failed aborted_or_crashed\<close>
  when the runner returns for \<open>f\<close>.
\<close>

datatype event = Parse string | Run string bool bool

text \<open>The loop \<^verbatim>\<open>for filename in testfiles\<close>, from the exit status reached so far.\<close>

fun run_files ::
  "('w, 'ex) collaborators \<Rightarrow> string set \<Rightarrow> args \<Rightarrow> string list \<Rightarrow> int \<Rightarrow> 'w
     \<Rightarrow> (exn + int) \<times> event list \<times> 'w" where
  "run_files C allowed_languages a [] exit_status w = (Inr exit_status, [], w)"
| "run_files C allowed_languages a (filename # rest) exit_status w =
     (case get_examples_from_file C allowed_languages filename w of
        (Inl e, w1) \<Rightarrow> (Inl e, [Parse filename], w1)
      | (Inr examples, w1) \<Rightarrow>
          if dry a then
            (case run_files C allowed_languages a rest exit_status w1 of
               (r, evs, w') \<Rightarrow> (r, Parse filename # evs, w'))
          else
            (case runner_run C examples filename w1 of
               (Inl e, w2) \<Rightarrow> (Inl e, [Parse filename], w2)
             | (Inr (failed, aborted_or_crashed), w2) \<Rightarrow>
                 (let exit_status = (if failed then max exit_status 1 else exit_status);
                      exit_status = (if aborted_or_crashed then max exit_status 2 else exit_status)
                  in if (failed \<or> aborted_or_crashed) \<and> fail_fast a
                     then (Inr exit_status,
                           [Parse filename, Run filename failed aborted_or_crashed], w2)
                     else
                       (case run_files C allowed_languages a rest exit_status w2 of
                          (r, evs, w') \<Rightarrow>
                            (r, Parse filename # Run filename failed aborted_or_crashed # evs,
                             w')))))"

text \<open>
  \<^verbatim>\<open>main\<close>, given what the search path holds. The constructors of the reporter, the
  checker, the options, the finder and the runner only build objects, and
  \<^verbatim>\<open>get_encoding\<close> only logs.
\<close>

definition main ::
  "(pyobj list \<Rightarrow> pyobj list) \<Rightarrow> pymodule list \<Rightarrow> ('w, 'ex) collaborators \<Rightarrow> args \<Rightarrow> 'w
     \<Rightarrow> (exn + int) \<times> event list \<times> 'w" where
  "main set_order modules C a w =
     (case load_modules set_order modules of
        Inl e \<Rightarrow> (Inl e, [], w)
      | Inr (registry, made) \<Rightarrow>
          (case get_allowed_languages registry (languages a) of
             Inl e \<Rightarrow> (Inl e, [], w)
           | Inr allowed_languages \<Rightarrow>
               (let allowed_files = set (files a) - set (skip a);
                    testfiles = filter (\<lambda>f. f \<in> allowed_files) (files a)
                in run_files C allowed_languages a testfiles 0 w)))"

text \<open>
  The severity of an event (0 passed, 1 failed, 2 aborted or crashed) and the files on
  which the loop started, for the statements about the exit status and the files.
\<close>

fun severity :: "event \<Rightarrow> int" where
  "severity (Parse f) = 0"
| "severity (Run f failed aborted_or_crashed) =
     (if aborted_or_crashed then 2 else if failed then 1 else 0)"

fun parsed_files :: "event list \<Rightarrow> string list" where
  "parsed_files [] = []"
| "parsed_files (Parse f # evs) = f # parsed_files evs"
| "parsed_files (Run f x y # evs) = parsed_files evs"

subsection \<open>What the collaborators return for the files\<close>

text \<open>
  The reference against which the loop of \<^verbatim>\<open>main\<close> is stated, written from the words of
  the specification and not from the loop. \<open>process_file\<close> is what the collaborators do
  with one file: the finder reads it and, unless the run is dry, the runner runs what
  was found; the outcome is the exception one of them raised, \<open>None\<close> in a dry run, or
  the pair the runner returned. \<open>process_each\<close> does this for the files one after the
  other, each from the world the one before left, and keeps for each file its name, its
  outcome and the world behind it; it knows of no exit status and never stops.
\<close>

type_synonym 'w step = "string \<times> (exn + (bool \<times> bool) option) \<times> 'w"

definition process_file ::
  "('w, 'ex) collaborators \<Rightarrow> string set \<Rightarrow> bool \<Rightarrow> string \<Rightarrow> 'w
     \<Rightarrow> (exn + (bool \<times> bool) option) \<times> 'w" where
  "process_file C allowed_languages dry_run filename w =
     (case get_examples_from_file C allowed_languages filename w of
        (Inl e, w1) \<Rightarrow> (Inl e, w1)
      | (Inr examples, w1) \<Rightarrow>
          if dry_run then (Inr None, w1)
          else (case runner_run C examples filename w1 of
                  (Inl e, w2) \<Rightarrow> (Inl e, w2)
                | (Inr result, w2) \<Rightarrow> (Inr (Some result), w2)))"

fun process_each ::
  "('w, 'ex) collaborators \<Rightarrow> string set \<Rightarrow> bool \<Rightarrow> string list \<Rightarrow> 'w \<Rightarrow> 'w step list" where
  "process_each C allowed_languages dry_run [] w = []"
| "process_each C allowed_languages dry_run (filename # rest) w =
     (case process_file C allowed_languages dry_run filename w of
        (outcome, w1) \<Rightarrow>
          (filename, outcome, w1) # process_each C allowed_languages dry_run rest w1)"

text \<open>
  A step ends the processing when a collaborator raised, or when the file failed,
  aborted or crashed and \<^verbatim>\<open>FAIL_FAST\<close> is set. \<open>upto_first P xs\<close> is \<open>xs\<close> up to and with
  its first element that satisfies \<open>P\<close>, all of \<open>xs\<close> when there is none. \<open>observed\<close> is
  what is processed of the files of the command line that are not skipped.
\<close>

fun stops_loop :: "bool \<Rightarrow> 'w step \<Rightarrow> bool" where
  "stops_loop ff (filename, Inl e, w) = True"
| "stops_loop ff (filename, Inr None, w) = False"
| "stops_loop ff (filename, Inr (Some (failed, aborted_or_crashed)), w) =
     ((failed \<or> aborted_or_crashed) \<and> ff)"

fun upto_first :: "('a \<Rightarrow> bool) \<Rightarrow> 'a list \<Rightarrow> 'a list" where
  "upto_first P [] = []"
| "upto_first P (x # xs) = (if P x then [x] else x # upto_first P xs)"

definition observed ::
  "('w, 'ex) collaborators \<Rightarrow> string set \<Rightarrow> args \<Rightarrow> 'w \<Rightarrow> 'w step list" where
  "observed C allowed_languages a w =
     upto_first (stops_loop (fail_fast a))
       (process_each C allowed_languages (dry a)
          (filter (\<lambda>f. f \<notin> set (skip a)) (files a)) w)"

text \<open>
  The events of the steps, the exception of the step that raised, if one did, and the
  world behind the last step.
\<close>

fun step_events :: "'w step \<Rightarrow> event list" where
  "step_events (filename, Inr (Some (failed, aborted_or_crashed)), w) =
     [Parse filename, Run filename failed aborted_or_crashed]"
| "step_events (filename, Inr None, w) = [Parse filename]"
| "step_events (filename, Inl e, w) = [Parse filename]"

fun raised :: "'w step list \<Rightarrow> exn option" where
  "raised [] = None"
| "raised ((filename, Inl e, w) # steps) = Some e"
| "raised ((filename, Inr result, w) # steps) = raised steps"

fun world_after :: "'w \<Rightarrow> 'w step list \<Rightarrow> 'w" where
  "world_after w [] = w"
| "world_after w ((filename, outcome, w1) # steps) = world_after w1 steps"

subsection \<open>\<^verbatim>\<open>concern.py\<close>: the composite\<close>

text \<open>
  A concern is an object with the hooks of the class \<^verbatim>\<open>Concern\<close>: calling the hook
  \<open>method_name\<close> with the arguments \<open>args\<close> changes the world and returns a value or
  raises. The public methods that \<^verbatim>\<open>Concern\<close> defines, each with the body \<^verbatim>\<open>pass\<close>:
\<close>

type_synonym ('w, 'a, 'r) concern = "string \<Rightarrow> 'a \<Rightarrow> 'w \<Rightarrow> (exn + 'r) \<times> 'w"

definition Concern_methods :: "string list" where
  "Concern_methods =
     [''start_run'', ''end_run'', ''skip_example'', ''start_example'', ''start_interact'',
      ''finish_interact'', ''user_aborted'', ''crashed'', ''success'', ''failure'']"

text \<open>\<^verbatim>\<open>ConcernComposite.__init__\<close>: \<^verbatim>\<open>self.concerns = registry['concerns'].values()\<close>\<close>

definition ConcernComposite :: "'c pydict pydict \<Rightarrow> exn + 'c list" where
  "ConcernComposite registry =
     (case dict_get registry ''concerns'' of
        Inl e \<Rightarrow> Inl e
      | Inr concerns \<Rightarrow> Inr (dict_values concerns))"

text \<open>The function that \<^verbatim>\<open>_patch\<close> installs under the name \<open>method_name\<close>.\<close>

fun for_each_concern_do ::
  "string \<Rightarrow> ('w, 'a, 'r) concern list \<Rightarrow> 'a \<Rightarrow> 'w \<Rightarrow> (exn + unit) \<times> 'w" where
  "for_each_concern_do method_name [] args w = (Inr (), w)"
| "for_each_concern_do method_name (concern # concerns) args w =
     (case concern method_name args w of
        (Inl e, w1) \<Rightarrow> (Inl e, w1)
      | (Inr r, w1) \<Rightarrow> for_each_concern_do method_name concerns args w1)"

text \<open>
  The loop at the end of the module patches the names that
  \<^verbatim>\<open>inspect.getmembers(Concern, predicate=inspect.ismethod)\<close> yields and that do not start
  with an underscore. What the scan yields depends on the interpreter, which the code
  distinguishes by \<^verbatim>\<open>sys.version_info[0]\<close> (\<^verbatim>\<open>get_encoding\<close>): on Python 2 a function
  looked up on its class is an unbound method, \<^verbatim>\<open>inspect.ismethod\<close> accepts it and the scan
  yields the methods of \<^verbatim>\<open>Concern\<close>, sorted by name; on Python 3 it is a plain function,
  \<^verbatim>\<open>inspect.ismethod\<close> rejects it and the scan yields nothing.
\<close>

definition startswith :: "string \<Rightarrow> string \<Rightarrow> bool" where
  "startswith s t = prefix t s"

definition ismethod_members :: "nat \<Rightarrow> string list" where
  "ismethod_members version_major =
     (if version_major \<le> 2
      then [''__repr__'', ''crashed'', ''end_run'', ''failure'', ''finish_interact'',
            ''skip_example'', ''start_example'', ''start_interact'', ''start_run'',
            ''success'', ''user_aborted'']
      else [])"

definition patched :: "string list \<Rightarrow> string list" where
  "patched members = filter (\<lambda>method_name. \<not> startswith method_name ''_'') members"

text \<open>
  Calling the method \<open>method_name\<close> of a composite whose class was patched with the
  names \<open>members\<close>: the patched function when there is one, else the method inherited from
  \<^verbatim>\<open>Concern\<close>, which does nothing and returns \<^verbatim>\<open>None\<close>.
\<close>

definition composite_call ::
  "string list \<Rightarrow> ('w, 'a, 'r) concern list \<Rightarrow> string \<Rightarrow> 'a \<Rightarrow> 'w \<Rightarrow> (exn + unit) \<times> 'w" where
  "composite_call members concerns method_name args w =
     (if method_name \<in> set (patched members)
      then for_each_concern_do method_name concerns args w
      else if method_name \<in> set Concern_methods then (Inr (), w)
      else (Inl (AttributeError method_name), w))"

text \<open>
  What holds of every registry that the discovery builds: the three mappings exist and
  every object stored in one has the attribute the mapping is keyed by.
\<close>

definition has_attr :: "string \<Rightarrow> pyobj pydict \<Rightarrow> bool" where
  "has_attr key container = (\<forall>obj \<in> set (dict_values container). \<exists>v. getattr obj key = Inr v)"

definition discovered :: "registry \<Rightarrow> bool" where
  "discovered registry =
     (\<exists>is ps fs. map_of registry ''interpreters'' = Some is \<and> has_attr ''language'' is
        \<and> map_of registry ''parsers'' = Some ps \<and> has_attr ''language'' ps
        \<and> map_of registry ''finders'' = Some fs \<and> has_attr ''target'' fs)"

subsection \<open>A sample installation\<close>

text \<open>
  One plugin module with one interpreter class for Python, and collaborators for which
  the file \<^verbatim>\<open>fails.md\<close> has a failing example, \<^verbatim>\<open>crashes.md\<close> crashes its interpreter
  and every other file passes. They are the concrete inputs at which the theorems are
  evaluated.
\<close>

definition sample_interpreter :: klass where
  "sample_interpreter =
     \<lparr>cname = ''PythonInterpreter'', subclass_of = [''Interpreter''],
      attrs = [(''language'', ''python'')], init_error = None\<rparr>"

definition sample_module :: pymodule where
  "sample_module =
     \<lparr>mod_name = ''python'',
      load_module = Inr [(''PythonInterpreter'', ClassObj sample_interpreter)]\<rparr>"

definition sample_collaborators :: "(unit, string) collaborators" where
  "sample_collaborators =
     \<lparr>get_examples_from_file = (\<lambda>allowed filename w. (Inr filename, w)),
      runner_run = (\<lambda>examples filename w.
                      (Inr (filename = ''fails.md'', filename = ''crashes.md''), w))\<rparr>"

text \<open>
  A concern that returns its name and adds its name and the hook to the world, which is
  the list of the hooks called so far; and one that raises.
\<close>

definition recording :: "string \<Rightarrow> ((string \<times> string) list, 'a, string) concern" where
  "recording name = (\<lambda>method_name args w. (Inr name, w @ [(name, method_name)]))"

definition raising :: "string \<Rightarrow> ((string \<times> string) list, 'a, string) concern" where
  "raising name =
     (\<lambda>method_name args w. (Inl (OtherError name), w @ [(name, method_name)]))"

subsection \<open>Facts about \<^verbatim>\<open>re.sub\<close>\<close>
lemma CR_neq_LF: "CR \<noteq> LF" by (simp add: CR_def LF_def)

lemma literal_hit: "p \<noteq> [] \<Longrightarrow> literal p pre (p @ cs) = Some (length p)"
  by (simp add: literal_def)

lemma literal_miss: "\<not> prefix p s \<Longrightarrow> literal p pre s = None"
  by (simp add: literal_def)

lemma literal_hit': "p \<noteq> [] \<Longrightarrow> prefix p s \<Longrightarrow> literal p pre s = Some (length p)"
  by (simp add: literal_def)

lemma literal_miss': "p = [] \<Longrightarrow> literal p pre s = None"
  by (simp add: literal_def)

lemma re_sub_from_Cons_hit:
  "m pre (c # cs) = Some n \<Longrightarrow> n \<noteq> 0 \<Longrightarrow>
   re_sub_from m repl pre (c # cs) = repl @ re_sub_from m repl (pre @ take n (c # cs)) (drop n (c # cs))"
  by simp

lemma re_sub_from_Cons_miss:
  "m pre (c # cs) = None \<or> m pre (c # cs) = Some 0 \<Longrightarrow>
   re_sub_from m repl pre (c # cs) = c # re_sub_from m repl (pre @ [c]) cs"
  by auto

lemma re_sub_from_literal_pre:
  "re_sub_from (literal p) repl pre s = re_sub_from (literal p) repl [] s"
proof (induction s arbitrary: pre rule: length_induct)
  case (1 s)
  show ?case
  proof (cases s)
    case Nil then show ?thesis by simp
  next
    case (Cons c cs)
    show ?thesis
    proof (cases "p \<noteq> [] \<and> prefix p s")
      case True
      have l: "literal p q (c # cs) = Some (length p)" for q
        using True Cons by (simp add: literal_hit')
      have n0: "length p \<noteq> 0" using True by simp
      have lt: "length (drop (length p) (c # cs)) < length s" using True Cons by simp
      have ih: "re_sub_from (literal p) repl (pre @ take (length p) (c # cs)) (drop (length p) (c # cs))
              = re_sub_from (literal p) repl [] (drop (length p) (c # cs))"
        using 1 lt by blast
      have ih0: "re_sub_from (literal p) repl ([] @ take (length p) (c # cs)) (drop (length p) (c # cs))
              = re_sub_from (literal p) repl [] (drop (length p) (c # cs))"
        using 1 lt by blast
      have "re_sub_from (literal p) repl pre (c # cs)
          = repl @ re_sub_from (literal p) repl [] (drop (length p) (c # cs))"
        unfolding re_sub_from_Cons_hit [of "literal p" pre c cs "length p" repl, OF l n0] ih ..
      moreover have "re_sub_from (literal p) repl [] (c # cs)
          = repl @ re_sub_from (literal p) repl [] (drop (length p) (c # cs))"
        unfolding re_sub_from_Cons_hit [of "literal p" "[]" c cs "length p" repl, OF l n0] ih0 ..
      ultimately show ?thesis unfolding Cons by (rule trans [OF _ sym])
    next
      case False
      have l: "literal p q (c # cs) = None" for q
        using False Cons by (cases "p = []") (simp_all add: literal_miss literal_miss')
      have lt: "length cs < length s" using Cons by simp
      have ih: "re_sub_from (literal p) repl (pre @ [c]) cs = re_sub_from (literal p) repl [] cs"
        using 1 lt by blast
      have ih0: "re_sub_from (literal p) repl ([] @ [c]) cs = re_sub_from (literal p) repl [] cs"
        using 1 lt by blast
      have "re_sub_from (literal p) repl pre (c # cs) = c # re_sub_from (literal p) repl [] cs"
        unfolding re_sub_from_Cons_miss [of "literal p" pre c cs repl, OF disjI1, OF l] ih ..
      moreover have "re_sub_from (literal p) repl [] (c # cs) = c # re_sub_from (literal p) repl [] cs"
        unfolding re_sub_from_Cons_miss [of "literal p" "[]" c cs repl, OF disjI1, OF l] ih0 ..
      ultimately show ?thesis unfolding Cons by (rule trans [OF _ sym])
    qed
  qed
qed

lemma crlf_Nil: "re_sub (literal [CR, LF]) [LF] [] = []"
  by (simp add: re_sub_def)

lemma crlf_hit: "re_sub (literal [CR, LF]) [LF] (CR # LF # cs) = LF # re_sub (literal [CR, LF]) [LF] cs"
proof -
  have "literal [CR, LF] [] (CR # LF # cs) = Some 2"
    using literal_hit [of "[CR, LF]" "[]" cs] by simp
  then have "re_sub_from (literal [CR, LF]) [LF] [] (CR # LF # cs)
           = LF # re_sub_from (literal [CR, LF]) [LF] [CR, LF] cs"
    by simp
  then show ?thesis
    unfolding re_sub_def using re_sub_from_literal_pre [of "[CR, LF]" "[LF]" "[CR, LF]" cs]
    by simp
qed

lemma crlf_miss: "\<not> prefix [CR, LF] (c # cs) \<Longrightarrow>
   re_sub (literal [CR, LF]) [LF] (c # cs) = c # re_sub (literal [CR, LF]) [LF] cs"
proof -
  assume "\<not> prefix [CR, LF] (c # cs)"
  then have "literal [CR, LF] [] (c # cs) = None" by (rule literal_miss)
  then have "re_sub_from (literal [CR, LF]) [LF] [] (c # cs)
           = c # re_sub_from (literal [CR, LF]) [LF] [c] cs"
    by simp
  then show ?thesis
    unfolding re_sub_def using re_sub_from_literal_pre [of "[CR, LF]" "[LF]" "[c]" cs]
    by simp
qed

lemma crlf_append:
  "re_sub (literal [CR, LF]) [LF] (xs @ CR # LF # ys)
     = re_sub (literal [CR, LF]) [LF] xs @ LF # re_sub (literal [CR, LF]) [LF] ys"
proof (induction xs rule: length_induct)
  case (1 xs)
  show ?case
  proof (cases xs)
    case Nil then show ?thesis by (simp add: crlf_hit crlf_Nil)
  next
    case (Cons c cs)
    show ?thesis
    proof (cases "prefix [CR, LF] xs")
      case True
      then obtain r where r: "xs = CR # LF # r" by (auto simp: prefix_def)
      then show ?thesis using 1 by (simp add: crlf_hit)
    next
      case False
      then have "\<not> prefix [CR, LF] (c # cs @ CR # LF # ys)"
        using Cons CR_neq_LF by (cases cs) (auto)
      then show ?thesis using 1 Cons False by (simp add: crlf_miss)
    qed
  qed
qed

lemma crlf_id: "\<not> sublist [CR, LF] xs \<Longrightarrow> re_sub (literal [CR, LF]) [LF] xs = xs"
proof (induction xs)
  case Nil then show ?case by (simp add: crlf_Nil)
next
  case (Cons c cs)
  have a: "\<not> prefix [CR, LF] (c # cs)" using Cons.prems by (meson prefix_imp_sublist)
  have b: "\<not> sublist [CR, LF] cs" using Cons.prems by (meson sublist_Cons_right)
  show ?case using a b Cons.IH by (simp add: crlf_miss)
qed

lemma re_sub_del_subseq: "subseq (re_sub_from m [] pre s) s"
proof (induction m "[]::string" pre s rule: re_sub_from.induct)
  case (1 m pre) then show ?case by simp
next
  case (2 m pre c cs)
  show ?case
  proof (cases "m pre (c # cs)")
    case None then show ?thesis using 2 by simp
  next
    case (Some n)
    show ?thesis
    proof (cases "n = 0")
      case True then show ?thesis using 2 Some by simp
    next
      case False
      have "subseq (re_sub_from m [] (pre @ take n (c # cs)) (drop n (c # cs))) (drop n (c # cs))"
        using 2(3) Some False by simp
      moreover have "subseq (drop n (c # cs)) (c # cs)"
        by (metis append_take_drop_id list_emb_append2 subseq_order.order_refl)
      ultimately have "subseq (re_sub_from m [] (pre @ take n (c # cs)) (drop n (c # cs))) (c # cs)"
        using subseq_order.order_trans by blast
      then show ?thesis using Some False by simp
    qed
  qed
qed

lemma universal_new_lines_ends:
  "universal_new_lines t \<noteq> [] \<Longrightarrow> endswith (universal_new_lines t) [LF]"
  by (auto simp: universal_new_lines_def Let_def endswith_def split: if_splits)

lemma re_sub_del_subseq': "subseq (re_sub m [] s) s"
  unfolding re_sub_def by (rule re_sub_del_subseq)


subsection \<open>The captured output\<close>

text \<open>
  Claim C1, as amended. \<^verbatim>\<open>_get_output\<close> joins the buffered chunks, deletes what the
  continuation-prompt pattern consumes when one is configured (so the stripped text is a
  subsequence of the joined text), replaces every CR LF of the stripped text by one LF
  (the replacement distributes over each CR LF and is the identity on a text without one),
  appends one LF when the result is not empty and does not already end with LF, and
  leaves the buffer empty. A non-empty result therefore ends with LF; line terminators
  that were already at its end are kept, so it may end with more than one.
\<close>

theorem get_output_amended:
  "get_output s = (out, s') \<Longrightarrow>
     (let raw = concat (last_output s);
          stripped = (case any_PS_re s of None \<Rightarrow> raw | Some m \<Rightarrow> re_sub m [] raw);
          nl = re_sub (literal [CR, LF]) [LF]
      in last_output s' = []
       \<and> subseq stripped raw
       \<and> (\<forall>xs ys. nl (xs @ CR # LF # ys) = nl xs @ LF # nl ys)
       \<and> (\<forall>xs. \<not> sublist [CR, LF] xs \<longrightarrow> nl xs = xs)
       \<and> (nl stripped = [] \<longrightarrow> out = [])
       \<and> (nl stripped \<noteq> [] \<and> endswith (nl stripped) [LF] \<longrightarrow> out = nl stripped)
       \<and> (nl stripped \<noteq> [] \<and> \<not> endswith (nl stripped) [LF] \<longrightarrow> out = nl stripped @ [LF])
       \<and> (out \<noteq> [] \<longrightarrow> endswith out [LF]))"
proof -
  assume g: "get_output s = (out, s')"
  define raw where "raw = concat (last_output s)"
  define stripped where "stripped = (case any_PS_re s of None \<Rightarrow> raw | Some m \<Rightarrow> re_sub m [] raw)"
  have out: "out = universal_new_lines stripped" and s': "s' = drop_output s"
    using g unfolding get_output_def Let_def stripped_def raw_def by auto
  have 1: "last_output s' = []" by (simp add: s' drop_output_def)
  have 2: "subseq stripped raw"
    by (cases "any_PS_re s") (simp_all add: stripped_def re_sub_del_subseq')
  have 3: "out \<noteq> [] \<longrightarrow> endswith out [LF]"
    using universal_new_lines_ends out by blast
  have 4: "re_sub (literal [CR, LF]) [LF] stripped = [] \<longrightarrow> out = []"
    by (simp add: out universal_new_lines_def)
  have 5: "re_sub (literal [CR, LF]) [LF] stripped \<noteq> [] \<and> endswith (re_sub (literal [CR, LF]) [LF] stripped) [LF]
       \<longrightarrow> out = re_sub (literal [CR, LF]) [LF] stripped"
    by (simp add: out universal_new_lines_def)
  have 6: "re_sub (literal [CR, LF]) [LF] stripped \<noteq> [] \<and> \<not> endswith (re_sub (literal [CR, LF]) [LF] stripped) [LF]
       \<longrightarrow> out = re_sub (literal [CR, LF]) [LF] stripped @ [LF]"
    by (simp add: out universal_new_lines_def)
  show ?thesis
    unfolding Let_def raw_def [symmetric] stripped_def [symmetric]
    using 1 2 3 4 5 6 crlf_append crlf_id by blast
qed


text \<open>
  The theorem at a buffer of two chunks with a continuation prompt: \<^verbatim>\<open>'1\r\n'\<close> and
  \<^verbatim>\<open>'... 2'\<close> give \<^verbatim>\<open>'1\n2\n'\<close>.
\<close>

theorem get_output_amended_witness:
  "get_output \<lparr>interpreter = (), PS1_re = literal ''>>> '', any_PS_re = Some (literal ''... ''),
                last_output = [''1'' @ [CR, LF], ''... 2'']\<rparr>
     = (''1'' @ [LF] @ ''2'' @ [LF],
        \<lparr>interpreter = (), PS1_re = literal ''>>> '', any_PS_re = Some (literal ''... ''),
         last_output = []\<rparr>)
   \<and> endswith (''1'' @ [LF] @ ''2'' @ [LF]) [LF]"
proof -
  have h: "get_output \<lparr>interpreter = (), PS1_re = literal ''>>> '', any_PS_re = Some (literal ''... ''),
                last_output = [''1'' @ [CR, LF], ''... 2'']\<rparr>
     = (''1'' @ [LF] @ ''2'' @ [LF],
        \<lparr>interpreter = (), PS1_re = literal ''>>> '', any_PS_re = Some (literal ''... ''),
         last_output = []\<rparr>)"
    by (simp add: get_output_def universal_new_lines_def re_sub_def literal_def CR_def LF_def
        endswith_def suffix_to_prefix drop_output_def Let_def)
  show ?thesis
    using h get_output_amended [OF h] by (simp add: Let_def)
qed

text \<open>
  Claim C1 as stated fails: a buffer that already ends with two line terminators is
  returned with both of them.
\<close>

theorem get_output_keeps_two_terminators:
  "fst (get_output \<lparr>interpreter = (), PS1_re = literal ''>>> '', any_PS_re = None,
                    last_output = [''a'' @ [LF, LF]]\<rparr>) = ''a'' @ [LF, LF]
   \<and> endswith (''a'' @ [LF, LF]) [LF, LF]"
  by (simp add: get_output_def universal_new_lines_def re_sub_def literal_def CR_def LF_def
      endswith_def suffix_to_prefix drop_output_def Let_def)

text \<open>
  The replacement of CR LF is one pass over the text: a CR in front of a CR LF stays,
  so the result of \<^verbatim>\<open>'\r\r\n'\<close> is \<^verbatim>\<open>'\r\n'\<close>.
\<close>

lemma get_output_cr_before_crlf:
  "fst (get_output \<lparr>interpreter = (), PS1_re = literal ''>>> '', any_PS_re = None,
                    last_output = [[CR, CR, LF]]\<rparr>) = [CR, LF]"
  by (simp add: get_output_def universal_new_lines_def re_sub_def literal_def CR_def LF_def
      endswith_def suffix_to_prefix drop_output_def Let_def)

subsection \<open>Waiting for the prompt\<close>

lemma settle_loop_Timeout: "settle_loop L Timeout s = Some (Inr (), s)"
  by (subst settle_loop.simps) simp

lemma settle_loop_step:
  "what \<noteq> Timeout \<Longrightarrow> expect L (interpreter s) (PS1_re s) settle_window = (Inr what', c) \<Longrightarrow>
   settle_loop L what s =
     settle_loop L what' (s\<lparr>interpreter := c, last_output := last_output s @ [before L c]\<rparr>)"
  by (subst settle_loop.simps) simp

lemma settle_loop_raise:
  "what \<noteq> Timeout \<Longrightarrow> expect L (interpreter s) (PS1_re s) settle_window = (Inl e, c) \<Longrightarrow>
   settle_loop L what s = Some (Inl e, s\<lparr>interpreter := c\<rparr>)"
  by (subst settle_loop.simps) simp

lemma PS1_found_neq_Timeout: "PS1_found \<noteq> Timeout"
  by (simp add: PS1_found_def Timeout_def)

lemma settle_loop_prompts:
  "prompts_found L (PS1_re s) (interpreter s) n = Some (bs, c2) \<Longrightarrow>
   expect L c2 (PS1_re s) settle_window = (Inr Timeout, c3) \<Longrightarrow>
   settle_loop L PS1_found s =
     Some (Inr (), s\<lparr>interpreter := c3, last_output := last_output s @ bs @ [before L c3]\<rparr>)"
proof (induction n arbitrary: s bs)
  case 0
  then have "bs = []" "c2 = interpreter s" by simp_all
  with 0 show ?case
    using settle_loop_step [OF PS1_found_neq_Timeout, of L s Timeout c3]
    by (simp add: settle_loop_Timeout)
next
  case (Suc n)
  from Suc.prems(1) obtain c1 bs' where
    e: "expect L (interpreter s) (PS1_re s) settle_window = (Inr PS1_found, c1)"
    and p: "prompts_found L (PS1_re s) c1 n = Some (bs', c2)"
    and bs: "bs = before L c1 # bs'"
    by (auto split: prod.splits sum.splits if_splits option.splits)
  let ?s1 = "s\<lparr>interpreter := c1, last_output := last_output s @ [before L c1]\<rparr>"
  have "settle_loop L PS1_found s = settle_loop L PS1_found ?s1"
    using settle_loop_step [OF PS1_found_neq_Timeout e] .
  also have "\<dots> = Some (Inr (), ?s1\<lparr>interpreter := c3, last_output := last_output ?s1 @ bs' @ [before L c3]\<rparr>)"
    using Suc.IH [of ?s1 bs'] p Suc.prems(2) by simp
  finally show ?case by (simp add: bs)
qed

text \<open>
  Claim C2. When the first \<^verbatim>\<open>expect\<close> finds the prompt, the next \<open>n\<close> calls with the
  settle window find it again and the call after those times out (\<open>n + 1\<close> prompts, then
  silence), \<^verbatim>\<open>_expect_prompt\<close> returns normally right after that first timeout: the child
  is the one that call left. The buffer has received what \<^verbatim>\<open>before\<close> held after each of
  the \<open>n + 2\<close> calls, in order, and the following \<^verbatim>\<open>_get_output\<close> returns one text made of
  all of them and empties the buffer.
\<close>

theorem expect_prompt_settles:
  assumes "expect L (interpreter s) (PS1_re s) timeout = (Inr PS1_found, c1)"
    and "prompts_found L (PS1_re s) c1 n = Some (bs, c2)"
    and "expect L c2 (PS1_re s) settle_window = (Inr Timeout, c3)"
  shows "expect_prompt L timeout s =
           Some (Inr (), s\<lparr>interpreter := c3,
                            last_output := last_output s @ before L c1 # bs @ [before L c3]\<rparr>)
       \<and> length (before L c1 # bs) = Suc n
       \<and> get_output (s\<lparr>interpreter := c3,
                         last_output := last_output s @ before L c1 # bs @ [before L c3]\<rparr>)
           = (universal_new_lines
                (case any_PS_re s of
                   None \<Rightarrow> concat (last_output s) @ before L c1 @ concat bs @ before L c3
                 | Some m \<Rightarrow> re_sub m [] (concat (last_output s) @ before L c1 @ concat bs @ before L c3)),
              s\<lparr>interpreter := c3, last_output := []\<rparr>)"
proof -
  let ?s1 = "s\<lparr>interpreter := c1, last_output := last_output s @ [before L c1]\<rparr>"
  have "expect_prompt L timeout s = settle_loop L PS1_found ?s1"
    using assms(1) by (simp add: expect_prompt_def)
  also have "\<dots> = Some (Inr (), ?s1\<lparr>interpreter := c3, last_output := last_output ?s1 @ bs @ [before L c3]\<rparr>)"
    using settle_loop_prompts [of L ?s1 n bs c2 c3] assms(2,3) by simp
  finally have a: "expect_prompt L timeout s =
           Some (Inr (), s\<lparr>interpreter := c3,
                            last_output := last_output s @ before L c1 # bs @ [before L c3]\<rparr>)"
    by simp
  have len: "length bs = n" using assms(2)
  proof (induction n arbitrary: c1 bs)
    case 0 then show ?case by simp
  next
    case (Suc n)
    then show ?case by (auto split: prod.splits sum.splits if_splits option.splits)
  qed
  show ?thesis using a len
    by (cases "any_PS_re s") (simp_all add: get_output_def drop_output_def Let_def)
qed

text \<open>
  The theorem at a child that has printed \<^verbatim>\<open>'1\r\n>>> 2\r\n>>> '\<close> and is silent: two
  prompts, one captured output \<^verbatim>\<open>'1\n2\n'\<close>.
\<close>

theorem expect_prompt_settles_witness:
  "expect_prompt silent_child 2
     \<lparr>interpreter = \<lparr>unread = ''1'' @ [CR, LF] @ ''>>> 2'' @ [CR, LF] @ ''>>> '', seen_before = []\<rparr>,
      PS1_re = literal ''>>> '', any_PS_re = None, last_output = []\<rparr>
   = Some (Inr (),
       \<lparr>interpreter = \<lparr>unread = [], seen_before = []\<rparr>,
        PS1_re = literal ''>>> '', any_PS_re = None,
        last_output = [''1'' @ [CR, LF], ''2'' @ [CR, LF], []]\<rparr>)
   \<and> get_output
       \<lparr>interpreter = \<lparr>unread = [], seen_before = []\<rparr>,
        PS1_re = literal ''>>> '', any_PS_re = None,
        last_output = [''1'' @ [CR, LF], ''2'' @ [CR, LF], []]\<rparr>
     = (''1'' @ [LF] @ ''2'' @ [LF],
        \<lparr>interpreter = \<lparr>unread = [], seen_before = []\<rparr>,
         PS1_re = literal ''>>> '', any_PS_re = None, last_output = []\<rparr>)"
proof -
  let ?s = "\<lparr>interpreter = \<lparr>unread = ''1'' @ [CR, LF] @ ''>>> 2'' @ [CR, LF] @ ''>>> '', seen_before = []\<rparr>,
      PS1_re = literal ''>>> '', any_PS_re = None, last_output = []\<rparr>"
  let ?c1 = "\<lparr>unread = ''2'' @ [CR, LF] @ ''>>> '', seen_before = ''1'' @ [CR, LF]\<rparr>"
  let ?c2 = "\<lparr>unread = [], seen_before = ''2'' @ [CR, LF]\<rparr>"
  let ?c3 = "\<lparr>unread = [], seen_before = []\<rparr>"
  have h1: "expect silent_child (interpreter ?s) (PS1_re ?s) 2 = (Inr PS1_found, ?c1)"
    by (simp add: silent_child_def literal_def CR_def LF_def)
  have h2: "prompts_found silent_child (PS1_re ?s) ?c1 1 = Some ([''2'' @ [CR, LF]], ?c2)"
    by (simp add: silent_child_def literal_def CR_def LF_def)
  have h3: "expect silent_child ?c2 (PS1_re ?s) settle_window = (Inr Timeout, ?c3)"
    by (simp add: silent_child_def literal_def)
  have u: "universal_new_lines (''1'' @ [CR, LF] @ ''2'' @ [CR, LF]) = ''1'' @ [LF] @ ''2'' @ [LF]"
    by (simp add: universal_new_lines_def re_sub_def literal_def CR_def LF_def
        endswith_def suffix_to_prefix Let_def)
  show ?thesis
    using expect_prompt_settles [OF h1 h2 h3] u by (simp add: silent_child_def)
qed

lemma stall_message_causes:
  "sublist ''the code is taking too long to finish'' (stall_message seen)"
  "sublist ''there is a syntax error'' (stall_message seen)"
proof -
  have "stall_message seen = ''Prompt not found: '' @ ''the code is taking too long to finish''
          @ ('' or there is a syntax error.'' @ [LF] @ ''Last 1000 bytes read:'' @ [LF]
             @ drop (length seen - 1000) seen)"
    by (simp add: stall_message_def)
  then show "sublist ''the code is taking too long to finish'' (stall_message seen)"
    unfolding sublist_def by blast
  have "stall_message seen = ''Prompt not found: the code is taking too long to finish or ''
          @ ''there is a syntax error''
          @ (''.'' @ [LF] @ ''Last 1000 bytes read:'' @ [LF] @ drop (length seen - 1000) seen)"
    by (simp add: stall_message_def)
  then show "sublist ''there is a syntax error'' (stall_message seen)"
    unfolding sublist_def by blast
qed

text \<open>
  Claim C3. When the first \<^verbatim>\<open>expect\<close> of \<^verbatim>\<open>_expect_prompt\<close> times out, a
  \<^verbatim>\<open>TimeoutException\<close> is raised. Its message is the fixed text that names both causes
  (the code is taking too long to finish, or there is a syntax error) followed by the
  last 1000 characters of \<^verbatim>\<open>before\<close>, or all of them when there are fewer, also when
  there are none.
\<close>

theorem expect_prompt_stall:
  "expect L (interpreter s) (PS1_re s) timeout = (Inr Timeout, c) \<Longrightarrow>
   (\<exists>s' tail.
      expect_prompt L timeout s = Some (Inl (TimeoutException (stall_message (before L c))), s')
    \<and> stall_message (before L c)
        = ''Prompt not found: the code is taking too long to finish or there is a syntax error.''
          @ [LF] @ ''Last 1000 bytes read:'' @ [LF] @ tail
    \<and> suffix tail (before L c)
    \<and> length tail = min 1000 (length (before L c))
    \<and> sublist ''the code is taking too long to finish'' (stall_message (before L c))
    \<and> sublist ''there is a syntax error'' (stall_message (before L c)))"
proof -
  assume a: "expect L (interpreter s) (PS1_re s) timeout = (Inr Timeout, c)"
  let ?s' = "s\<lparr>interpreter := c, last_output := last_output s @ [before L c]\<rparr>"
  let ?tail = "drop (length (before L c) - 1000) (before L c)"
  have 1: "expect_prompt L timeout s = Some (Inl (TimeoutException (stall_message (before L c))), ?s')"
    using a by (simp add: expect_prompt_def Let_def PS1_found_def Timeout_def)
  have 2: "stall_message (before L c)
        = ''Prompt not found: the code is taking too long to finish or there is a syntax error.''
          @ [LF] @ ''Last 1000 bytes read:'' @ [LF] @ ?tail"
    by (simp add: stall_message_def)
  have 3: "suffix ?tail (before L c)" by (rule suffix_drop)
  have 4: "length ?tail = min 1000 (length (before L c))" by simp
  show ?thesis
    using 1 2 3 4 stall_message_causes [of "before L c"] by blast
qed

text \<open>The theorem at a child that printed nothing: the message ends with an empty tail.\<close>

theorem expect_prompt_stall_witness:
  "expect silent_child \<lparr>unread = [], seen_before = ''old''\<rparr> (literal ''>>> '') 2
     = (Inr Timeout, \<lparr>unread = [], seen_before = []\<rparr>)
   \<and> (\<exists>s'. expect_prompt silent_child 2
         \<lparr>interpreter = \<lparr>unread = [], seen_before = ''old''\<rparr>,
          PS1_re = literal ''>>> '', any_PS_re = None, last_output = []\<rparr>
       = Some (Inl (TimeoutException
           (''Prompt not found: the code is taking too long to finish or there is a syntax error.''
            @ [LF] @ ''Last 1000 bytes read:'' @ [LF])), s'))"
proof -
  let ?s = "\<lparr>interpreter = \<lparr>unread = [], seen_before = ''old''\<rparr>,
          PS1_re = literal ''>>> '', any_PS_re = None, last_output = []\<rparr>"
  have h: "expect silent_child (interpreter ?s) (PS1_re ?s) 2
     = (Inr Timeout, \<lparr>unread = [], seen_before = []\<rparr>)"
    by (simp add: silent_child_def)
  have b: "before silent_child \<lparr>unread = [], seen_before = []\<rparr> = []"
    by (simp add: silent_child_def)
  show ?thesis
    using h expect_prompt_stall [OF h] by (auto simp: b)
qed

text \<open>
  Claim C9. When the first \<^verbatim>\<open>expect\<close> of \<^verbatim>\<open>_expect_prompt\<close> times out, the exception
  leaves a session whose buffer is the old buffer followed by what \<^verbatim>\<open>before\<close> held at the
  timeout; \<^verbatim>\<open>_exec_and_wait\<close> passes the exception on without calling \<^verbatim>\<open>_get_output\<close>, so
  the buffer is still there for the caller.
\<close>

theorem expect_prompt_stall_keeps_output:
  assumes "expect L (interpreter s) (PS1_re s) timeout = (Inr Timeout, c)"
  shows "(\<exists>msg. expect_prompt L timeout s
            = Some (Inl (TimeoutException msg),
                    s\<lparr>interpreter := c, last_output := last_output s @ [before L c]\<rparr>))
       \<and> (\<forall>send c0 source. send c0 source = (Inr (), interpreter s) \<longrightarrow>
            (\<exists>msg. exec_and_wait L send source timeout (s\<lparr>interpreter := c0\<rparr>)
               = Some (Inl (TimeoutException msg),
                       s\<lparr>interpreter := c, last_output := last_output s @ [before L c]\<rparr>)))"
proof -
  have a: "expect_prompt L timeout s
            = Some (Inl (TimeoutException (stall_message (before L c))),
                    s\<lparr>interpreter := c, last_output := last_output s @ [before L c]\<rparr>)"
    using assms by (simp add: expect_prompt_def Let_def PS1_found_def Timeout_def)
  have b: "s\<lparr>interpreter := c0, interpreter := interpreter s\<rparr> = s" for c0 :: 'a
    by simp
  show ?thesis using a by (auto simp: exec_and_wait_def)
qed

text \<open>
  The theorem at a child that printed an unfinished list and no prompt: the text is in
  the buffer after the exception, behind what was there before.
\<close>

theorem expect_prompt_stall_keeps_output_witness:
  "expect silent_child \<lparr>unread = ''[ 1, 2,'', seen_before = []\<rparr> (literal ''>>> '') 2
     = (Inr Timeout, \<lparr>unread = ''[ 1, 2,'', seen_before = ''[ 1, 2,''\<rparr>)
   \<and> (\<exists>msg. expect_prompt silent_child 2
         \<lparr>interpreter = \<lparr>unread = ''[ 1, 2,'', seen_before = []\<rparr>,
          PS1_re = literal ''>>> '', any_PS_re = None, last_output = [''earlier'']\<rparr>
       = Some (Inl (TimeoutException msg),
          \<lparr>interpreter = \<lparr>unread = ''[ 1, 2,'', seen_before = ''[ 1, 2,''\<rparr>,
           PS1_re = literal ''>>> '', any_PS_re = None, last_output = [''earlier'', ''[ 1, 2,'']\<rparr>))"
proof -
  let ?s = "\<lparr>interpreter = \<lparr>unread = ''[ 1, 2,'', seen_before = []\<rparr>,
          PS1_re = literal ''>>> '', any_PS_re = None, last_output = [''earlier'']\<rparr>"
  have h: "expect silent_child (interpreter ?s) (PS1_re ?s) 2
     = (Inr Timeout, \<lparr>unread = ''[ 1, 2,'', seen_before = ''[ 1, 2,''\<rparr>)"
    by (simp add: silent_child_def literal_def)
  have b: "before silent_child \<lparr>unread = ''[ 1, 2,'', seen_before = ''[ 1, 2,''\<rparr> = ''[ 1, 2,''"
    by (simp add: silent_child_def)
  show ?thesis
    using h expect_prompt_stall_keeps_output [OF h] by (simp add: b)
qed

subsection \<open>The manual handoff\<close>

text \<open>
  Claim C6. Whatever \<^verbatim>\<open>send\<close>, the pass-through and the input filter do to the world,
  and whether the body of the \<^verbatim>\<open>try\<close> returns or raises, after \<^verbatim>\<open>interact\<close> the terminal
  has the attributes it had at entry; the outcome of the body is the outcome of the call
  and the rest of the world is as the body left it.
\<close>

theorem interact_restores:
  "tty_attr (snd (interact H send escape_character input_filter output_filter w)) = tty_attr w
   \<and> fst (interact H send escape_character input_filter output_filter w)
       = fst (interact_body H send escape_character input_filter output_filter w)
   \<and> beyond (snd (interact H send escape_character input_filter output_filter w))
       = beyond (snd (interact_body H send escape_character input_filter output_filter w))"
  by (simp add: interact_def Let_def split: prod.splits)

subsection \<open>The sample installation, evaluated\<close>

lemma sample_load:
  "load_modules (\<lambda>ks. ks) [sample_module]
     = Inr ([(''interpreters'', [(''python'', Instance sample_interpreter 0)]),
             (''finders'', []), (''parsers'', [])], [sample_interpreter])"
  by (simp add: load_modules_def load_one_def sample_module_def kinds_def dict_get_def
      dict_set_def dict_values_def getmembers_def is_a_def getattr_def sample_interpreter_def)

lemma sample_allowed:
  "get_allowed_languages [(''interpreters'', [(''python'', Instance sample_interpreter 0)]),
             (''finders'', []), (''parsers'', [])] [''python''] = Inr {''python''}"
  by (simp add: get_allowed_languages_def dict_get_def dict_values_def getattr_def
      sample_interpreter_def Let_def)

subsection \<open>The loop over the files and its reference\<close>

text \<open>
  The loop of \<^verbatim>\<open>main\<close> does what the reference says: it processes the files up to and
  with the first step that stops it, its events are the events of those steps, its world
  is the world behind them, and it ends with the exception of the step that raised or
  with the largest severity among the results.
\<close>

lemma run_files_reference:
  "0 \<le> st \<Longrightarrow>
   run_files C al a fs st w =
     (let tr = upto_first (stops_loop (fail_fast a)) (process_each C al (dry a) fs w)
      in ((case raised tr of
             Some e \<Rightarrow> Inl e
           | None \<Rightarrow> Inr (fold max (map severity (concat (map step_events tr))) st)),
          concat (map step_events tr), world_after w tr))"
proof (induction fs arbitrary: st w)
  case Nil
  then show ?case by simp
next
  case (Cons f fs)
  obtain r1 w1 where g: "get_examples_from_file C al f w = (r1, w1)"
    by (cases "get_examples_from_file C al f w")
  show ?case
  proof (cases r1)
    case (Inl e)
    with g show ?thesis by (simp add: process_file_def)
  next
    case ex: (Inr ex)
    show ?thesis
    proof (cases "dry a")
      case True
      have pf: "process_file C al (dry a) f w = (Inr None, w1)"
        using g ex True by (simp add: process_file_def)
      show ?thesis
        using g ex True pf Cons.IH [OF Cons.prems, of w1] Cons.prems
        by (simp add: Let_def split: option.splits)
    next
      case False
      obtain r2 w2 where rr: "runner_run C ex f w1 = (r2, w2)" by (cases "runner_run C ex f w1")
      show ?thesis
      proof (cases r2)
        case (Inl e)
        with g ex False rr show ?thesis by (simp add: process_file_def)
      next
        case (Inr res)
        obtain failed ab where res: "res = (failed, ab)" by (cases res)
        define st2 where "st2 = (if ab then max (if failed then max st 1 else st) 2
                                 else (if failed then max st 1 else st))"
        have sev: "max (severity (Run f failed ab)) st = st2"
          using Cons.prems by (auto simp: st2_def)
        have st2: "0 \<le> st2" using Cons.prems by (auto simp: st2_def)
        have pf: "process_file C al (dry a) f w = (Inr (Some (failed, ab)), w2)"
          using g ex False rr Inr res by (simp add: process_file_def)
        show ?thesis
        proof (cases "(failed \<or> ab) \<and> fail_fast a")
          case True
          then show ?thesis
            using g ex False rr Inr res pf sev Cons.prems
            by (auto simp: Let_def st2_def)
        next
          case nb: False
          have "run_files C al a (f # fs) st w =
                (case run_files C al a fs st2 w2 of
                   (r, evs, w') \<Rightarrow> (r, Parse f # Run f failed ab # evs, w'))"
            using g ex False rr Inr res nb by (auto simp: Let_def st2_def)
          then show ?thesis
            using Cons.IH [OF st2, of w2] pf nb sev Cons.prems
            by (auto simp: Let_def split: option.splits)
        qed
      qed
    qed
  qed
qed


lemma fold_max_Max: "fold max xs (s::int) = Max (set (s # xs))"
  using Max.set_eq_fold [of s xs] by simp

lemma get_allowed_languages_result:
  "get_allowed_languages registry selected = Inr al \<Longrightarrow> al = set selected"
  by (auto simp: get_allowed_languages_def Let_def split: sum.splits if_splits)

lemma main_reference:
  assumes "load_modules so ms = Inr (registry, made)"
    and "get_allowed_languages registry (languages a) = Inr al"
  shows "main so ms C a w =
     ((case raised (observed C al a w) of
         Some e \<Rightarrow> Inl e
       | None \<Rightarrow> Inr (Max (set (0 # map severity (concat (map step_events (observed C al a w))))))),
      concat (map step_events (observed C al a w)), world_after w (observed C al a w))"
proof -
  have f: "filter (\<lambda>f. f \<in> set (files a) - set (skip a)) (files a)
         = filter (\<lambda>f. f \<notin> set (skip a)) (files a)"
    by (rule filter_cong) auto
  have "main so ms C a w = run_files C al a (filter (\<lambda>f. f \<notin> set (skip a)) (files a)) 0 w"
    using assms unfolding main_def Let_def f by simp
  then show ?thesis
    using run_files_reference [of 0 C al a "filter (\<lambda>f. f \<notin> set (skip a)) (files a)" w]
    by (simp add: observed_def Let_def fold_max_Max split: option.splits)
qed

lemma Run_in_step_events:
  "Run f x y \<in> set (concat (map step_events tr)) \<longleftrightarrow> (\<exists>w1. (f, Inr (Some (x, y)), w1) \<in> set tr)"
proof (induction tr)
  case Nil
  then show ?case by simp
next
  case (Cons s tr)
  obtain g r w1 where s: "s = (g, r, w1)" by (cases s)
  show ?case
  proof (cases r)
    case (Inl e)
    with s Cons show ?thesis by auto
  next
    case (Inr res)
    show ?thesis
    proof (cases res)
      case None
      with s Inr Cons show ?thesis by auto
    next
      case (Some p)
      obtain x' y' where "p = (x', y')" by (cases p)
      with s Inr Some Cons show ?thesis by auto
    qed
  qed
qed

lemma parsed_files_step_events: "parsed_files (concat (map step_events tr)) = map fst tr"
proof (induction tr)
  case Nil
  then show ?case by simp
next
  case (Cons s tr)
  obtain g r w1 where s: "s = (g, r, w1)" by (cases s)
  show ?case
  proof (cases r)
    case (Inl e)
    with s Cons show ?thesis by simp
  next
    case (Inr res)
    show ?thesis
    proof (cases res)
      case None
      with s Inr Cons show ?thesis by simp
    next
      case (Some p)
      obtain x' y' where "p = (x', y')" by (cases p)
      with s Inr Some Cons show ?thesis by simp
    qed
  qed
qed

lemma map_fst_process_each: "map fst (process_each C al d fs w) = fs"
  by (induction fs arbitrary: w) (auto split: prod.splits)

lemma upto_first_prefix: "prefix (upto_first P xs) xs"
  by (induction xs) auto

lemma upto_first_none: "\<forall>x \<in> set xs. \<not> P x \<Longrightarrow> upto_first P xs = xs"
  by (induction xs) auto

lemma upto_first_split:
  "\<forall>p \<in> set pre. \<not> P p \<Longrightarrow> P s \<Longrightarrow> upto_first P (pre @ s # post) = pre @ [s]"
  by (induction pre) auto


lemma severity_range: "0 \<le> severity e \<and> severity e \<le> 2"
  by (cases e) auto

lemma severity_2: "severity e = 2 \<longleftrightarrow> (\<exists>f x. e = Run f x True)"
  by (cases e) auto

lemma severity_1: "severity e = 1 \<longleftrightarrow> (\<exists>f. e = Run f True False)"
  by (cases e) auto

lemma severity_0: "severity e = 0 \<longleftrightarrow> (\<forall>f x y. e = Run f x y \<longrightarrow> \<not> x \<and> \<not> y)"
  by (cases e) auto

lemma Max_severity:
  fixes evs :: "event list"
  defines "M \<equiv> Max (set (0 # map severity evs))"
  shows "(M = 0 \<longleftrightarrow> (\<forall>f x y. Run f x y \<in> set evs \<longrightarrow> \<not> x \<and> \<not> y))"
    and "(M = 1 \<longleftrightarrow> (\<exists>f. Run f True False \<in> set evs) \<and> (\<forall>f x. Run f x True \<notin> set evs))"
    and "(M = 2 \<longleftrightarrow> (\<exists>f x. Run f x True \<in> set evs))"
proof -
  let ?S = "set (0 # map severity evs)"
  have fin: "finite ?S" "?S \<noteq> {}" by simp_all
  have eq: "(M = m) = (m \<in> ?S \<and> (\<forall>a\<in>?S. a \<le> m))" for m
    unfolding M_def using Max_eq_iff [OF fin] .
  have "(M = 0) = (\<forall>e\<in>set evs. severity e = 0)"
    unfolding eq using severity_range by (auto simp: order.antisym)
  then show "(M = 0 \<longleftrightarrow> (\<forall>f x y. Run f x y \<in> set evs \<longrightarrow> \<not> x \<and> \<not> y))"
    unfolding severity_0 by blast
  have "(M = 2) = (\<exists>e\<in>set evs. severity e = 2)"
    unfolding eq using severity_range by auto
  then show "(M = 2 \<longleftrightarrow> (\<exists>f x. Run f x True \<in> set evs))"
    unfolding severity_2 by blast
  have "(M = 1) = ((\<exists>e\<in>set evs. severity e = 1) \<and> (\<forall>e\<in>set evs. severity e \<noteq> 2))"
  proof -
    have "severity e \<le> 1 \<longleftrightarrow> severity e \<noteq> 2" for e by (cases e) auto
    then show ?thesis unfolding eq by auto
  qed
  then show "(M = 1 \<longleftrightarrow> (\<exists>f. Run f True False \<in> set evs) \<and> (\<forall>f x. Run f x True \<notin> set evs))"
    unfolding severity_1 severity_2 by blast
qed

lemma sample_observed:
  "observed sample_collaborators {''python''}
     \<lparr>files = [''ok.md'', ''fails.md'', ''crashes.md''], skip = [], languages = [''python''],
      dry = False, fail_fast = False\<rparr> ()
   = [(''ok.md'', Inr (Some (False, False)), ()),
      (''fails.md'', Inr (Some (True, False)), ()),
      (''crashes.md'', Inr (Some (False, True)), ())]"
  by (simp add: observed_def process_file_def sample_collaborators_def)

subsection \<open>The exit status\<close>

text \<open>
  Claim C5. When the plugins load, the selected languages are known and no collaborator
  raises on a file that is processed, \<^verbatim>\<open>main\<close> returns an exit status, and it is the largest
  severity among the results that the runner returned for the files that were processed
  (0 when there is none): 0 exactly when none of these results says failed, aborted or
  crashed, 1 exactly when a file failed without aborting or crashing and no file aborted
  or crashed, 2 exactly when a file aborted or crashed.
\<close>

theorem main_exit_status:
  assumes "load_modules so ms = Inr (registry, made)"
    and "get_allowed_languages registry (languages a) = Inr al"
    and "raised (observed C al a w) = None"
  shows "\<exists>status.
      main so ms C a w
        = (Inr status, concat (map step_events (observed C al a w)),
           world_after w (observed C al a w))
    \<and> al = set (languages a)
    \<and> status = Max (set (0 # map severity (concat (map step_events (observed C al a w)))))
    \<and> (status = 0 \<longleftrightarrow>
         (\<forall>f x y w1. (f, Inr (Some (x, y)), w1) \<in> set (observed C al a w) \<longrightarrow> \<not> x \<and> \<not> y))
    \<and> (status = 1 \<longleftrightarrow>
         (\<exists>f w1. (f, Inr (Some (True, False)), w1) \<in> set (observed C al a w))
         \<and> (\<forall>f x w1. (f, Inr (Some (x, True)), w1) \<notin> set (observed C al a w)))
    \<and> (status = 2 \<longleftrightarrow>
         (\<exists>f x w1. (f, Inr (Some (x, True)), w1) \<in> set (observed C al a w)))"
proof -
  let ?tr = "observed C al a w"
  let ?evs = "concat (map step_events ?tr)"
  let ?M = "Max (set (0 # map severity ?evs))"
  have m: "main so ms C a w = (Inr ?M, ?evs, world_after w ?tr)"
    using main_reference [OF assms(1,2), of C w] assms(3) by simp
  have al: "al = set (languages a)"
    using assms(2) by (rule get_allowed_languages_result)
  have 0: "?M = 0 \<longleftrightarrow>
         (\<forall>f x y w1. (f, Inr (Some (x, y)), w1) \<in> set ?tr \<longrightarrow> \<not> x \<and> \<not> y)"
    unfolding Max_severity(1) Run_in_step_events by blast
  have 1: "?M = 1 \<longleftrightarrow>
         (\<exists>f w1. (f, Inr (Some (True, False)), w1) \<in> set ?tr)
         \<and> (\<forall>f x w1. (f, Inr (Some (x, True)), w1) \<notin> set ?tr)"
    unfolding Max_severity(2) Run_in_step_events by blast
  have 2: "?M = 2 \<longleftrightarrow> (\<exists>f x w1. (f, Inr (Some (x, True)), w1) \<in> set ?tr)"
    unfolding Max_severity(3) Run_in_step_events by blast
  show ?thesis
    using m al 0 1 2 by blast
qed

text \<open>The theorem at three files: one passes, one fails, one crashes; the status is 2.\<close>

theorem main_exit_status_witness:
  "main (\<lambda>ks. ks) [sample_module] sample_collaborators
     \<lparr>files = [''ok.md'', ''fails.md'', ''crashes.md''], skip = [], languages = [''python''],
      dry = False, fail_fast = False\<rparr> ()
   = (Inr 2, [Parse ''ok.md'', Run ''ok.md'' False False,
              Parse ''fails.md'', Run ''fails.md'' True False,
              Parse ''crashes.md'', Run ''crashes.md'' False True], ())"
proof -
  let ?a = "\<lparr>files = [''ok.md'', ''fails.md'', ''crashes.md''], skip = [],
             languages = [''python''], dry = False, fail_fast = False\<rparr>"
  have r: "raised (observed sample_collaborators {''python''} ?a ()) = None"
    by (simp add: sample_observed)
  have al: "get_allowed_languages [(''interpreters'', [(''python'', Instance sample_interpreter 0)]),
             (''finders'', []), (''parsers'', [])] (languages ?a) = Inr {''python''}"
    using sample_allowed by simp
  from main_exit_status [OF sample_load al r] obtain status where
    m: "main (\<lambda>ks. ks) [sample_module] sample_collaborators ?a ()
        = (Inr status, concat (map step_events (observed sample_collaborators {''python''} ?a ())),
           world_after () (observed sample_collaborators {''python''} ?a ()))"
    and s: "status = 2 \<longleftrightarrow>
         (\<exists>f x w1. (f, Inr (Some (x, True)), w1) \<in> set (observed sample_collaborators {''python''} ?a ()))"
    by blast
  have "status = 2" unfolding s sample_observed by auto
  then show ?thesis using m by (simp add: sample_observed)
qed

subsection \<open>The files that are processed\<close>

text \<open>
  Claim C10, as amended. When the plugins load and the selected languages are known,
  \<^verbatim>\<open>main\<close> goes through the files of the command line that are not in the skip list, in
  the order of the command line and with their repetitions, and calls the finder (and,
  unless the run is dry, the runner) on each: its events, its world and its outcome are
  those of the steps it processed. It processes all the files when no step stops the
  loop; otherwise it stops right behind the first file on which a collaborator raises
  or, with \<^verbatim>\<open>FAIL_FAST\<close>, which failed, aborted or crashed, and the files behind that one
  are not processed.
\<close>

theorem main_processes_files:
  assumes "load_modules so ms = Inr (registry, made)"
    and "get_allowed_languages registry (languages a) = Inr al"
  shows "(let testfiles = filter (\<lambda>f. f \<notin> set (skip a)) (files a);
              each = process_each C al (dry a) testfiles w;
              tr = observed C al a w
          in main so ms C a w
               = ((case raised tr of
                     Some e \<Rightarrow> Inl e
                   | None \<Rightarrow> Inr (Max (set (0 # map severity (concat (map step_events tr)))))),
                  concat (map step_events tr), world_after w tr)
           \<and> parsed_files (concat (map step_events tr)) = map fst tr
           \<and> map fst each = testfiles
           \<and> prefix tr each
           \<and> ((\<forall>s \<in> set each. \<not> stops_loop (fail_fast a) s) \<longrightarrow> tr = each)
           \<and> (\<forall>pre s post.
                 each = pre @ s # post \<and> (\<forall>p \<in> set pre. \<not> stops_loop (fail_fast a) p)
                 \<and> stops_loop (fail_fast a) s \<longrightarrow> tr = pre @ [s]))"
proof -
  let ?testfiles = "filter (\<lambda>f. f \<notin> set (skip a)) (files a)"
  let ?each = "process_each C al (dry a) ?testfiles w"
  let ?tr = "observed C al a w"
  have tr: "?tr = upto_first (stops_loop (fail_fast a)) ?each"
    by (simp add: observed_def)
  have 1: "main so ms C a w
               = ((case raised ?tr of
                     Some e \<Rightarrow> Inl e
                   | None \<Rightarrow> Inr (Max (set (0 # map severity (concat (map step_events ?tr)))))),
                  concat (map step_events ?tr), world_after w ?tr)"
    by (rule main_reference [OF assms])
  have 2: "parsed_files (concat (map step_events ?tr)) = map fst ?tr"
    by (rule parsed_files_step_events)
  have 3: "map fst ?each = ?testfiles" by (rule map_fst_process_each)
  have 4: "prefix ?tr ?each" unfolding tr by (rule upto_first_prefix)
  have 5: "(\<forall>s \<in> set ?each. \<not> stops_loop (fail_fast a) s) \<longrightarrow> ?tr = ?each"
    unfolding tr using upto_first_none by blast
  have 6: "\<forall>pre s post.
                 ?each = pre @ s # post \<and> (\<forall>p \<in> set pre. \<not> stops_loop (fail_fast a) p)
                 \<and> stops_loop (fail_fast a) s \<longrightarrow> ?tr = pre @ [s]"
    unfolding tr using upto_first_split by metis
  show ?thesis
    unfolding Let_def using 1 2 3 4 5 6 by blast
qed

text \<open>
  The theorem at a command line with a skipped file and a repeated one, with
  \<^verbatim>\<open>FAIL_FAST\<close>: the loop stops behind \<^verbatim>\<open>fails.md\<close>.
\<close>

theorem main_processes_files_witness:
  "main (\<lambda>ks. ks) [sample_module] sample_collaborators
     \<lparr>files = [''ok.md'', ''other.md'', ''ok.md'', ''fails.md'', ''crashes.md''],
      skip = [''other.md''], languages = [''python''], dry = False, fail_fast = True\<rparr> ()
   = (Inr 1, [Parse ''ok.md'', Run ''ok.md'' False False,
              Parse ''ok.md'', Run ''ok.md'' False False,
              Parse ''fails.md'', Run ''fails.md'' True False], ())
   \<and> parsed_files [Parse ''ok.md'', Run ''ok.md'' False False,
                    Parse ''ok.md'', Run ''ok.md'' False False,
                    Parse ''fails.md'', Run ''fails.md'' True False]
     = [''ok.md'', ''ok.md'', ''fails.md'']"
proof -
  let ?a = "\<lparr>files = [''ok.md'', ''other.md'', ''ok.md'', ''fails.md'', ''crashes.md''],
      skip = [''other.md''], languages = [''python''], dry = False, fail_fast = True\<rparr>"
  have al: "get_allowed_languages [(''interpreters'', [(''python'', Instance sample_interpreter 0)]),
             (''finders'', []), (''parsers'', [])] (languages ?a) = Inr {''python''}"
    using sample_allowed by simp
  have o: "observed sample_collaborators {''python''} ?a ()
         = [(''ok.md'', Inr (Some (False, False)), ()),
            (''ok.md'', Inr (Some (False, False)), ()),
            (''fails.md'', Inr (Some (True, False)), ())]"
    by (simp add: observed_def process_file_def sample_collaborators_def)
  have m: "main (\<lambda>ks. ks) [sample_module] sample_collaborators ?a ()
   = (Inr 1, [Parse ''ok.md'', Run ''ok.md'' False False,
              Parse ''ok.md'', Run ''ok.md'' False False,
              Parse ''fails.md'', Run ''fails.md'' True False], ())"
    by (simp add: main_def sample_load sample_allowed sample_collaborators_def Let_def)
  show ?thesis
    using main_processes_files [OF sample_load al, of sample_collaborators "()"] m
    by (simp add: Let_def o)
qed

text \<open>
  Claim C10 as stated fails: with \<^verbatim>\<open>FAIL_FAST\<close> the loop stops behind the first file that
  fails, and \<^verbatim>\<open>ok.md\<close>, which is not in the skip list, is never processed.
\<close>

theorem main_fail_fast_skips_later_files:
  "main (\<lambda>ks. ks) [sample_module] sample_collaborators
     \<lparr>files = [''fails.md'', ''ok.md''], skip = [], languages = [''python''],
      dry = False, fail_fast = True\<rparr> ()
   = (Inr 1, [Parse ''fails.md'', Run ''fails.md'' True False], ())
   \<and> parsed_files [Parse ''fails.md'', Run ''fails.md'' True False]
     \<noteq> filter (\<lambda>f. f \<notin> set []) [''fails.md'', ''ok.md'']"
  by (simp add: main_def sample_load sample_allowed sample_collaborators_def Let_def)

subsection \<open>The selected languages\<close>

lemma set_update_subset: "set (AList.update k v al) \<subseteq> insert (k, v) (set al)"
  by (induction al) auto

lemma store_objs_has_attr:
  "store_objs key objs container = Inr container' \<Longrightarrow> has_attr key container \<Longrightarrow>
   has_attr key container'"
proof (induction objs arbitrary: container)
  case Nil
  then show ?case by simp
next
  case (Cons obj objs)
  from Cons.prems(1) obtain v where v: "getattr obj key = Inr v"
    and rest: "store_objs key objs (dict_set container v obj) = Inr container'"
    by (auto split: sum.splits)
  have "has_attr key (dict_set container v obj)"
    using Cons.prems(2) v set_update_subset [of v obj container]
    by (fastforce simp: has_attr_def dict_set_def dict_values_def)
  then show ?case using Cons.IH rest by blast
qed

lemma load_kind_discovered:
  assumes "load_kind so members kkw (registry, made) = Inr (registry', made')"
    and "discovered registry" and "kkw \<in> set kinds"
  shows "discovered registry'"
proof -
  obtain klass key what where kkw: "kkw = (klass, key, what)" by (cases kkw) auto
  from assms(1) obtain container container' where
    c: "map_of registry what = Some container"
    and st: "\<exists>objs. store_objs key objs container = Inr container'"
    and r': "registry' = dict_set registry what container'"
    unfolding kkw
    by (auto simp: dict_get_def Let_def split: sum.splits option.splits prod.splits)
  have m: "map_of registry' = (map_of registry)(what \<mapsto> container')"
    by (simp add: r' dict_set_def update_conv')
  from assms(3) consider "key = ''language''" "what = ''interpreters''"
    | "key = ''language''" "what = ''parsers''"
    | "key = ''target''" "what = ''finders''"
    unfolding kkw kinds_def by auto
  then show ?thesis
  proof cases
    case 1
    with assms(2) c have "has_attr ''language'' container" by (auto simp: discovered_def)
    with st 1 have "has_attr ''language'' container'" using store_objs_has_attr by blast
    with assms(2) 1 show ?thesis unfolding discovered_def m by auto
  next
    case 2
    with assms(2) c have "has_attr ''language'' container" by (auto simp: discovered_def)
    with st 2 have "has_attr ''language'' container'" using store_objs_has_attr by blast
    with assms(2) 2 show ?thesis unfolding discovered_def m by auto
  next
    case 3
    with assms(2) c have "has_attr ''target'' container" by (auto simp: discovered_def)
    with st 3 have "has_attr ''target'' container'" using store_objs_has_attr by blast
    with assms(2) 3 show ?thesis unfolding discovered_def m by auto
  qed
qed

lemma for_each_invariant:
  assumes "for_each body xs st = Inr st'" and "P st"
    and "\<And>x s s'. x \<in> set xs \<Longrightarrow> P s \<Longrightarrow> body x s = Inr s' \<Longrightarrow> P s'"
  shows "P st'"
  using assms
proof (induction xs arbitrary: st)
  case Nil
  then show ?case by simp
next
  case (Cons x xs)
  from Cons.prems(1) obtain s1 where b: "body x st = Inr s1" and r: "for_each body xs s1 = Inr st'"
    by (auto split: sum.splits)
  have "P s1" using Cons.prems(3) [of x st s1] Cons.prems(2) b by simp
  moreover have "\<And>y s s'. y \<in> set xs \<Longrightarrow> P s \<Longrightarrow> body y s = Inr s' \<Longrightarrow> P s'"
    using Cons.prems(3) by (meson list.set_intros(2))
  ultimately show ?case using Cons.IH [OF r] by blast
qed

lemma load_one_discovered:
  assumes "load_one so m st = Inr st'" and "discovered (fst st)"
  shows "discovered (fst st')"
proof (cases "load_module m")
  case (Inl e)
  with assms show ?thesis by (simp add: load_one_def)
next
  case (Inr members)
  with assms(1) have f: "for_each (load_kind so members) kinds st = Inr st'"
    by (simp add: load_one_def)
  show ?thesis
  proof (rule for_each_invariant [OF f, where P = "\<lambda>s. discovered (fst s)"])
    show "discovered (fst st)" by (rule assms(2))
  next
    fix x s s' assume "x \<in> set kinds" "discovered (fst s)" "load_kind so members x s = Inr s'"
    then show "discovered (fst s')"
      using load_kind_discovered [of so members x "fst s" "snd s" "fst s'" "snd s'"] by simp
  qed
qed

lemma load_modules_discovered:
  assumes "load_modules so ms = Inr (registry, made)"
  shows "discovered registry"
proof -
  have f: "for_each (load_one so) ms ([(''interpreters'', []), (''finders'', []), (''parsers'', [])], [])
         = Inr (registry, made)"
    using assms by (simp add: load_modules_def)
  have "discovered (fst (registry, made))"
  proof (rule for_each_invariant [OF f, where P = "\<lambda>s. discovered (fst s)"])
    show "discovered (fst ([(''interpreters'', []), (''finders'', []), (''parsers'', [])], []))"
      by (simp add: discovered_def has_attr_def dict_values_def)
  next
    fix x s s' assume "discovered (fst s)" "load_one so x s = Inr s'"
    then show "discovered (fst s')" using load_one_discovered by blast
  qed
  then show ?thesis by simp
qed

lemma languages_of_ok:
  assumes "has_attr ''language'' container"
  shows "\<exists>ls. languages_of (dict_values container) = Inr ls
      \<and> set ls = {l. \<exists>obj \<in> set (dict_values container). getattr obj ''language'' = Inr l}"
proof -
  have "(\<forall>obj \<in> set objs. \<exists>v. getattr obj ''language'' = Inr v) \<Longrightarrow>
        \<exists>ls. languages_of objs = Inr ls
          \<and> set ls = {l. \<exists>obj \<in> set objs. getattr obj ''language'' = Inr l}" for objs
  proof (induction objs)
    case Nil
    then show ?case by simp
  next
    case (Cons obj objs)
    then obtain v ls where v: "getattr obj ''language'' = Inr v"
      and ls: "languages_of objs = Inr ls"
      and s: "set ls = {l. \<exists>obj \<in> set objs. getattr obj ''language'' = Inr l}"
      by auto
    have "languages_of (obj # objs) = Inr (v # ls)" using v ls by simp
    moreover have "set (v # ls) = {l. \<exists>o' \<in> set (obj # objs). getattr o' ''language'' = Inr l}"
      using v s by auto
    ultimately show ?case by blast
  qed
  from this [of "dict_values container"] assms show ?thesis
    unfolding has_attr_def by blast
qed

text \<open>
  Claim C7. For a registry that the discovery returned, let \<open>known\<close> be the languages of
  the objects in its interpreters and parsers. If a selected language is not in \<open>known\<close>,
  \<^verbatim>\<open>get_allowed_languages\<close> raises \<^verbatim>\<open>ValueError\<close> with the selected languages that are not
  known, and \<^verbatim>\<open>main\<close> ends with that exception before the loop over the files has started
  (no event, the world untouched). If every selected language is in \<open>known\<close>, the result
  is the set of the selected languages.
\<close>

theorem unknown_language_rejected:
  assumes "load_modules so ms = Inr (registry, made)"
  shows "\<exists>is ps known.
      dict_get registry ''interpreters'' = Inr is \<and> dict_get registry ''parsers'' = Inr ps
    \<and> (\<forall>l. l \<in> known \<longleftrightarrow>
           (\<exists>obj \<in> set (dict_values is) \<union> set (dict_values ps). getattr obj ''language'' = Inr l))
    \<and> ((\<exists>l \<in> set (languages a). l \<notin> known) \<longrightarrow>
          get_allowed_languages registry (languages a)
            = Inl (ValueError (set (languages a) - known))
        \<and> main so ms C a w = (Inl (ValueError (set (languages a) - known)), [], w))
    \<and> ((\<forall>l \<in> set (languages a). l \<in> known) \<longrightarrow>
          get_allowed_languages registry (languages a) = Inr (set (languages a)))"
proof -
  from load_modules_discovered [OF assms] obtain "is" ps where
    i: "map_of registry ''interpreters'' = Some is" and hi: "has_attr ''language'' is"
    and p: "map_of registry ''parsers'' = Some ps" and hp: "has_attr ''language'' ps"
    unfolding discovered_def by blast
  from languages_of_ok [OF hi] obtain ls1 where
    l1: "languages_of (dict_values is) = Inr ls1"
    and s1: "set ls1 = {l. \<exists>obj \<in> set (dict_values is). getattr obj ''language'' = Inr l}"
    by blast
  from languages_of_ok [OF hp] obtain ls2 where
    l2: "languages_of (dict_values ps) = Inr ls2"
    and s2: "set ls2 = {l. \<exists>obj \<in> set (dict_values ps). getattr obj ''language'' = Inr l}"
    by blast
  let ?known = "set (ls1 @ ls2)"
  have g: "get_allowed_languages registry (languages a)
         = (if set (languages a) - ?known \<noteq> {} then Inl (ValueError (set (languages a) - ?known))
            else Inr (set (languages a)))"
    by (simp add: get_allowed_languages_def dict_get_def i p l1 l2 Let_def)
  have k: "\<forall>l. l \<in> ?known \<longleftrightarrow>
           (\<exists>obj \<in> set (dict_values is) \<union> set (dict_values ps). getattr obj ''language'' = Inr l)"
    using s1 s2 by auto
  have bad: "(\<exists>l \<in> set (languages a). l \<notin> ?known) \<longrightarrow>
          get_allowed_languages registry (languages a)
            = Inl (ValueError (set (languages a) - ?known))
        \<and> main so ms C a w = (Inl (ValueError (set (languages a) - ?known)), [], w)"
  proof
    assume "\<exists>l \<in> set (languages a). l \<notin> ?known"
    then have "set (languages a) - ?known \<noteq> {}" by blast
    then have "get_allowed_languages registry (languages a)
            = Inl (ValueError (set (languages a) - ?known))"
      using g by simp
    then show "get_allowed_languages registry (languages a)
            = Inl (ValueError (set (languages a) - ?known))
        \<and> main so ms C a w = (Inl (ValueError (set (languages a) - ?known)), [], w)"
      by (simp add: main_def assms)
  qed
  have good: "(\<forall>l \<in> set (languages a). l \<in> ?known) \<longrightarrow>
          get_allowed_languages registry (languages a) = Inr (set (languages a))"
  proof
    assume "\<forall>l \<in> set (languages a). l \<in> ?known"
    then have "set (languages a) - ?known = {}" by blast
    then show "get_allowed_languages registry (languages a) = Inr (set (languages a))"
      using g by simp
  qed
  have d: "dict_get registry ''interpreters'' = Inr is" "dict_get registry ''parsers'' = Inr ps"
    by (simp_all add: dict_get_def i p)
  show ?thesis
    using d k bad good by blast
qed

text \<open>
  The theorem at the sample installation, which knows Python only, when Ruby is
  selected.
\<close>

theorem unknown_language_rejected_witness:
  "load_modules (\<lambda>ks. ks) [sample_module]
     = Inr ([(''interpreters'', [(''python'', Instance sample_interpreter 0)]),
             (''finders'', []), (''parsers'', [])], [sample_interpreter])
   \<and> get_allowed_languages
        [(''interpreters'', [(''python'', Instance sample_interpreter 0)]),
         (''finders'', []), (''parsers'', [])] [''ruby'']
     = Inl (ValueError {''ruby''})
   \<and> main (\<lambda>ks. ks) [sample_module] sample_collaborators
        \<lparr>files = [''ok.md''], skip = [], languages = [''ruby''], dry = False,
         fail_fast = False\<rparr> ()
     = (Inl (ValueError {''ruby''}), [], ())"
proof -
  have g: "get_allowed_languages
        [(''interpreters'', [(''python'', Instance sample_interpreter 0)]),
         (''finders'', []), (''parsers'', [])] [''ruby'']
     = Inl (ValueError {''ruby''})"
    by (simp add: get_allowed_languages_def dict_get_def dict_values_def getattr_def
        sample_interpreter_def Let_def)
  show ?thesis
    using unknown_language_rejected [OF sample_load,
        of "\<lparr>files = [''ok.md''], skip = [], languages = [''ruby''], dry = False,
             fail_fast = False\<rparr>" sample_collaborators "()"]
    by (simp add: sample_load g main_def)
qed

subsection \<open>Scanning a class twice\<close>

text \<open>
  Claim C8 at a search path with two modules that both have the class
  \<^verbatim>\<open>PythonInterpreter\<close> as a member (the second imports it from the first). The difference
  \<^verbatim>\<open>set(klasses_found) - set(container.values())\<close> compares classes with instances and
  removes nothing: the class is instantiated for each module, and the second instance
  replaces the first under the key \<^verbatim>\<open>python\<close>.
\<close>

theorem load_modules_instantiates_rescanned_class_again:
  "load_modules (\<lambda>ks. ks)
     [sample_module,
      \<lparr>mod_name = ''python_extras'',
       load_module = Inr [(''PythonInterpreter'', ClassObj sample_interpreter)]\<rparr>]
     = Inr ([(''interpreters'', [(''python'', Instance sample_interpreter 1)]),
             (''finders'', []), (''parsers'', [])],
            [sample_interpreter, sample_interpreter])"
  by (simp add: load_modules_def load_one_def sample_module_def kinds_def dict_get_def
      dict_set_def dict_values_def getmembers_def is_a_def getattr_def sample_interpreter_def)

subsection \<open>The composite of the concerns\<close>

lemma patched_py2: "patched (ismethod_members 2) =
  [''crashed'', ''end_run'', ''failure'', ''finish_interact'',
            ''skip_example'', ''start_example'', ''start_interact'', ''start_run'',
            ''success'', ''user_aborted'']"
  by (simp add: patched_def ismethod_members_def startswith_def)

lemma patched_py2_all: "set (patched (ismethod_members 2)) = set Concern_methods"
  by (auto simp: patched_py2 Concern_methods_def)

text \<open>
  What the patched function does: when no concern raises, every concern is called, in
  the order of \<^verbatim>\<open>self.concerns\<close>, each on the world the one before left, and the result is
  \<^verbatim>\<open>None\<close> whatever they return; when one raises, the exception leaves the loop and the
  concerns behind it are not called.
\<close>

lemma for_each_concern_do_all:
  "(\<forall>c \<in> set cs. \<forall>w. \<exists>r w'. c m args w = (Inr r, w')) \<Longrightarrow>
   for_each_concern_do m cs args w = (Inr (), fold (\<lambda>c w. snd (c m args w)) cs w)"
proof (induction cs arbitrary: w)
  case Nil
  then show ?case by simp
next
  case (Cons c cs)
  then obtain r w1 where c: "c m args w = (Inr r, w1)" by (meson list.set_intros(1))
  then show ?case using Cons by simp
qed

lemma for_each_concern_do_raise:
  "(\<forall>c \<in> set pre. \<forall>w. \<exists>r w'. c m args w = (Inr r, w')) \<Longrightarrow>
   c m args (fold (\<lambda>c w. snd (c m args w)) pre w) = (Inl e, w1) \<Longrightarrow>
   for_each_concern_do m (pre @ c # post) args w = (Inl e, w1)"
proof (induction pre arbitrary: w)
  case Nil
  then show ?case by simp
next
  case (Cons p pre)
  then obtain r w2 where c: "p m args w = (Inr r, w2)" by (meson list.set_intros(1))
  then show ?case using Cons by simp
qed

lemma composite_call_patched:
  "method_name \<in> set (patched members) \<Longrightarrow>
   composite_call members concerns method_name args w
     = for_each_concern_do method_name concerns args w"
  by (simp add: composite_call_def)

lemma composite_call_raising_concern:
  "composite_call (ismethod_members 2) [recording ''a'', raising ''b'', recording ''c'']
     ''success'' () []
   = (Inl (OtherError ''b''), [(''a'', ''success''), (''b'', ''success'')])"
  by (simp add: composite_call_def ismethod_members_def patched_def startswith_def
      Concern_methods_def recording_def raising_def)

text \<open>
  Claim C4 on Python 3, with two concerns that record their calls: the scan for methods
  finds nothing, no hook is patched, and \<^verbatim>\<open>start_run\<close> of the composite is the inherited
  \<^verbatim>\<open>Concern.start_run\<close>, which calls no concern. On Python 2 the same call reaches both, in
  order.
\<close>

theorem composite_calls_no_concern_on_python3:
  "composite_call (ismethod_members 3) [recording ''a'', recording ''b''] ''start_run'' () []
     = (Inr (), [])
   \<and> composite_call (ismethod_members 2) [recording ''a'', recording ''b''] ''start_run'' () []
     = (Inr (), [(''a'', ''start_run''), (''b'', ''start_run'')])"
  by (simp add: composite_call_def ismethod_members_def patched_def startswith_def
      Concern_methods_def recording_def)

text \<open>
  The registry that the discovery builds has no mapping \<^verbatim>\<open>concerns\<close>: a composite cannot
  be made from it.
\<close>

lemma load_kind_no_concerns:
  assumes "load_kind so members kkw (registry, made) = Inr (registry', made')"
    and "map_of registry ''concerns'' = None" and "kkw \<in> set kinds"
  shows "map_of registry' ''concerns'' = None"
proof -
  obtain klass key what where kkw: "kkw = (klass, key, what)" by (cases kkw) auto
  from assms(1) obtain container' where r': "registry' = dict_set registry what container'"
    unfolding kkw
    by (auto simp: dict_get_def Let_def split: sum.splits option.splits prod.splits)
  have "what \<noteq> ''concerns''" using assms(3) unfolding kkw kinds_def by auto
  then show ?thesis using assms(2) by (simp add: r' dict_set_def update_conv')
qed

lemma load_modules_no_concerns:
  assumes "load_modules so ms = Inr (registry, made)"
  shows "ConcernComposite registry = Inl (KeyError ''concerns'')"
proof -
  have f: "for_each (load_one so) ms ([(''interpreters'', []), (''finders'', []), (''parsers'', [])], [])
         = Inr (registry, made)"
    using assms by (simp add: load_modules_def)
  have one: "map_of (fst s') ''concerns'' = None"
    if "map_of (fst s) ''concerns'' = None" and "load_one so m s = Inr s'" for m s s'
  proof (cases "load_module m")
    case (Inl e)
    with that show ?thesis by (simp add: load_one_def)
  next
    case (Inr members)
    with that(2) have g: "for_each (load_kind so members) kinds s = Inr s'"
      by (simp add: load_one_def)
    show ?thesis
    proof (rule for_each_invariant [OF g, where P = "\<lambda>s. map_of (fst s) ''concerns'' = None"])
      show "map_of (fst s) ''concerns'' = None" by (rule that(1))
    next
      fix x t t'
      assume "x \<in> set kinds" "map_of (fst t) ''concerns'' = None" "load_kind so members x t = Inr t'"
      then show "map_of (fst t') ''concerns'' = None"
        using load_kind_no_concerns [of so members x "fst t" "snd t" "fst t'" "snd t'"] by simp
    qed
  qed
  have "map_of (fst (registry, made)) ''concerns'' = None"
  proof (rule for_each_invariant [OF f, where P = "\<lambda>s. map_of (fst s) ''concerns'' = None"])
    show "map_of (fst ([(''interpreters'', []), (''finders'', []), (''parsers'', [])], [])) ''concerns'' = None"
      by simp
  next
    fix x s s'
    assume "map_of (fst s) ''concerns'' = None" "load_one so x s = Inr s'"
    then show "map_of (fst s') ''concerns'' = None" using one by blast
  qed
  then show ?thesis by (simp add: ConcernComposite_def dict_get_def)
qed

end
